theory Spec2Isabelle
  imports Main "HOL-Library.Word" "HOL-Library.Sublist"
begin

unbundle bit_operations_syntax

chapter \<open>The model\<close>

section \<open>JavaScript numbers and strings\<close>

text \<open>
  A JavaScript string is a sequence of UTF-16 code units; \<open>charCodeAt\<close> reads one of
  them as a number in 0..65535. The numbers of the modelled code are integers far below
  2^53, where double arithmetic is exact, so they are \<open>int\<close>; the 32-bit operators
  (\<open><<\<close>, \<open>&\<close>) convert their operands with ToInt32 (\<open>word_of_int\<close> into 32 bits) and
  give a signed 32-bit result (\<open>sint\<close>).
\<close>

type_synonym code_unit = "16 word"
type_synonym jstring = "code_unit list"

definition js_shl :: "int \<Rightarrow> nat \<Rightarrow> int" where
  "js_shl x n = sint (push_bit (n mod 32) (word_of_int x :: 32 word))"

definition js_and :: "int \<Rightarrow> int \<Rightarrow> int" where
  "js_and x y = sint ((word_of_int x :: 32 word) AND word_of_int y)"

definition digit_chars :: string where
  "digit_chars = ''0123456789abcdefghijklmnopqrstuvwxyz''"

text \<open>
  The digits of a natural number in a radix between 2 and 36, most significant first.
  The code uses the radices 10 and 36.
\<close>

function digits_radix :: "nat \<Rightarrow> nat \<Rightarrow> string" where
  "digits_radix r n =
     (if r < 2 \<or> n < r then [digit_chars ! n]
      else digits_radix r (n div r) @ [digit_chars ! (n mod r)])"
  by pat_completeness auto
termination
  by (relation "measure snd") auto

declare digits_radix.simps [simp del]

text \<open>\<open>Number.prototype.toString(radix)\<close> on an integer: a minus sign, then the digits.\<close>

definition toString_radix :: "nat \<Rightarrow> int \<Rightarrow> string" where
  "toString_radix r x =
     (if x < 0 then CHR ''-'' # digits_radix r (nat (- x)) else digits_radix r (nat x))"

section \<open>Session duration buckets (AnalyticsTracker.getDurationBucket)\<close>

text \<open>
  The argument is a duration in milliseconds, the difference of two \<open>Date.now()\<close>
  readings. \<open>Math.floor(duration / 1000)\<close> rounds towards minus infinity, as \<open>div\<close>
  on \<open>int\<close> does.
\<close>

definition getDurationBucket :: "int \<Rightarrow> string" where
  "getDurationBucket duration =
     (let seconds = duration div 1000 in
      if seconds < 10 then ''0-10s''
      else if seconds < 30 then ''10-30s''
      else if seconds < 60 then ''30-60s''
      else if seconds < 300 then ''1-5m''
      else if seconds < 600 then ''5-10m''
      else if seconds < 1800 then ''10-30m''
      else if seconds < 3600 then ''30-60m''
      else ''60m+'')"

section \<open>Browser fingerprint (FirebaseUtils.getBrowserFingerprint)\<close>

text \<open>
  What the page can read of its browser. The fingerprint reads the first nine fields;
  the referrer, the location, the title and the random source are here because other
  functions read them and the fingerprint does not. \<open>math_random\<close> is the string
  \<open>Math.random().toString(36)\<close>.
\<close>

record browser_env =
  nav_userAgent :: jstring
  nav_language :: jstring
  nav_platform :: jstring
  screen_width :: int
  screen_height :: int
  screen_colorDepth :: int
  intl_timeZone :: jstring
  nav_cookieEnabled :: bool
  nav_doNotTrack :: "jstring option"
  doc_referrer :: jstring
  loc_href :: jstring
  loc_pathname :: jstring
  doc_title :: jstring
  math_random :: jstring

text \<open>The object literal \<open>fingerprint\<close>; \<open>doNotTrack\<close> is a string or \<open>null\<close>.\<close>

record fingerprint =
  userAgent :: jstring
  language :: jstring
  platform :: jstring
  screen :: jstring
  colorDepth :: int
  timezone :: jstring
  cookiesEnabled :: bool
  doNotTrack :: "jstring option"

definition js_of_string :: "string \<Rightarrow> jstring" where
  "js_of_string s = map of_char s"

definition collect_fingerprint :: "browser_env \<Rightarrow> fingerprint" where
  "collect_fingerprint env =
     \<lparr> userAgent = nav_userAgent env,
       language = nav_language env,
       platform = nav_platform env,
       screen = js_of_string (toString_radix 10 (screen_width env)) @ js_of_string ''x''
                  @ js_of_string (toString_radix 10 (screen_height env)),
       colorDepth = screen_colorDepth env,
       timezone = intl_timeZone env,
       cookiesEnabled = nav_cookieEnabled env,
       doNotTrack = nav_doNotTrack env \<rparr>"

text \<open>
  The loop over the code units of the serialised fingerprint:
  \<open>hash = ((hash << 5) - hash) + char; hash = hash & hash\<close>.
\<close>

fun hash_loop :: "int \<Rightarrow> jstring \<Rightarrow> int" where
  "hash_loop hash [] = hash"
| "hash_loop hash (c # cs) =
     (let h1 = (js_shl hash 5 - hash) + uint c
      in hash_loop (js_and h1 h1) cs)"

text \<open>
  \<open>JSON.stringify\<close> belongs to the platform; it is the parameter \<open>stringify\<close>, a
  function of the fingerprint object alone.
\<close>

definition getBrowserFingerprint :: "(fingerprint \<Rightarrow> jstring) \<Rightarrow> browser_env \<Rightarrow> string" where
  "getBrowserFingerprint stringify env =
     (let fingerprintString = stringify (collect_fingerprint env);
          hash = hash_loop 0 fingerprintString
      in toString_radix 36 \<bar>hash\<bar>)"

text \<open>The pseudo-user-id that \<open>AnalyticsTracker.init\<close> derives from it.\<close>

definition init_userId :: "(fingerprint \<Rightarrow> jstring) \<Rightarrow> browser_env \<Rightarrow> string" where
  "init_userId stringify env = ''user_'' @ getBrowserFingerprint stringify env"

text \<open>
  A browser to run the fingerprint on: the referrer and the random source are its
  arguments. The serialiser used with it writes the string fields one after the other.
\<close>

definition env_example :: "string \<Rightarrow> string \<Rightarrow> browser_env" where
  "env_example ref rnd =
     \<lparr> nav_userAgent = js_of_string ''Mozilla/4.0'', nav_language = js_of_string ''en-US'',
       nav_platform = js_of_string ''Linux'', screen_width = 1920, screen_height = 1080,
       screen_colorDepth = 24, intl_timeZone = js_of_string ''UTC'', nav_cookieEnabled = True,
       nav_doNotTrack = None, doc_referrer = js_of_string ref,
       loc_href = js_of_string ''https://dtz.example/index.html'',
       loc_pathname = js_of_string ''/index.html'', doc_title = js_of_string ''Toolkit'',
       math_random = js_of_string rnd \<rparr>"

definition stringify_example :: "fingerprint \<Rightarrow> jstring" where
  "stringify_example f = userAgent f @ language f @ platform f @ screen f @ timezone f"

section \<open>The remote store and the page\<close>

text \<open>
  A value written to the Realtime Database; \<open>VIncrement\<close> is the sentinel
  \<open>ServerValue.increment(n)\<close>.
\<close>

datatype jsval = VNum int | VStr jstring | VBool bool | VIncrement int

text \<open>
  The calls the code makes on a database reference, with the path as the template
  literal builds it: \<open>set\<close>, \<open>update\<close> with its object of fields, \<open>remove\<close>,
  \<open>push().set\<close>, and \<open>transaction(current => (current || 0) + 1)\<close>.
\<close>

datatype rtdb_op =
    RSet jstring "(jstring \<times> jsval) list"
  | RSetValue jstring jsval
  | RUpdate jstring "(jstring \<times> jsval) list"
  | RRemove jstring
  | RPushSet jstring "(jstring \<times> jsval) list"
  | RTransactionIncrement jstring

text \<open>
  What a page has besides its own objects: the clock behind \<open>Date.now()\<close>, the
  calendar behind \<open>new Date().toISOString().split('T')[0]\<close>, the database (which
  calls it rejects, and the calls issued so far, oldest first), the local storage
  (latest entry first) and the console.
\<close>

record page =
  clock :: int
  iso_date :: "int \<Rightarrow> jstring"
  rtdb_rejects :: "rtdb_op \<Rightarrow> bool"
  rtdb_log :: "rtdb_op list"
  local_storage :: "(jstring \<times> jstring) list"
  console :: "jstring list"

text \<open>
  A \<open>try\<close> block that awaits its database calls one after the other: the calls are
  issued in order up to the first one that rejects, which sends control to \<open>catch\<close>.
\<close>

fun issued :: "(rtdb_op \<Rightarrow> bool) \<Rightarrow> rtdb_op list \<Rightarrow> rtdb_op list" where
  "issued rej [] = []"
| "issued rej (x # xs) = x # (if rej x then [] else issued rej xs)"

definition all_resolve :: "(rtdb_op \<Rightarrow> bool) \<Rightarrow> rtdb_op list \<Rightarrow> bool" where
  "all_resolve rej xs = list_all (\<lambda>x. \<not> rej x) xs"

definition await_all :: "jstring \<Rightarrow> rtdb_op list \<Rightarrow> 'a page_scheme \<Rightarrow> 'a page_scheme" where
  "await_all label xs p =
     p\<lparr> rtdb_log := rtdb_log p @ issued (rtdb_rejects p) xs,
        console := (if all_resolve (rtdb_rejects p) xs then console p
                    else console p @ [label]) \<rparr>"

section \<open>Tool viewer (ToolViewer)\<close>

text \<open>
  A tool definition as the viewer reads it. A missing field is \<open>None\<close>; JavaScript
  takes a missing or empty string for false.
\<close>

record tool_data =
  name :: "jstring option"
  description :: "jstring option"
  enabled :: bool
  tool_type :: jstring
  hostedHtml :: "jstring option"
  hostedCss :: "jstring option"
  hostedJs :: "jstring option"
  showHeader :: "bool option"

definition truthy :: "jstring option \<Rightarrow> bool" where
  "truthy x = (case x of None \<Rightarrow> False | Some s \<Rightarrow> s \<noteq> [])"

text \<open>\<open>x || d\<close> and \<open>${x}\<close> on a string that may be missing.\<close>

definition or_else :: "jstring option \<Rightarrow> jstring \<Rightarrow> jstring" where
  "or_else x d = (case x of None \<Rightarrow> d | Some s \<Rightarrow> if s = [] then d else s)"

definition interpolate :: "jstring option \<Rightarrow> jstring" where
  "interpolate x = (case x of None \<Rightarrow> js_of_string ''undefined'' | Some s \<Rightarrow> s)"

subsection \<open>escapeHtml\<close>

text \<open>
  \<open>escapeHtml\<close> sets the text as the \<open>textContent\<close> of a fresh \<open>div\<close> and reads its
  \<open>innerHTML\<close> back. The serialisation of a text node replaces the ampersand, the
  no-break space (U+00A0) and the two angle brackets by their entities and leaves every
  other code unit as it is.
\<close>

definition escape_unit :: "code_unit \<Rightarrow> jstring" where
  "escape_unit c =
     (if c = 0x26 then js_of_string ''&amp;''
      else if c = 0xA0 then js_of_string ''&nbsp;''
      else if c = 0x3C then js_of_string ''&lt;''
      else if c = 0x3E then js_of_string ''&gt;''
      else [c])"

definition escapeHtml :: "jstring option \<Rightarrow> jstring" where
  "escapeHtml text = (if \<not> truthy text then [] else concat (map escape_unit (interpolate text)))"

text \<open>
  How the parser reads character data back: the four entities above stand for their
  characters, anything else for itself.
\<close>

fun text_of_markup :: "jstring \<Rightarrow> jstring" where
  "text_of_markup [] = []"
| "text_of_markup (c # cs) =
     (if c = 0x26 \<and> take 4 cs = js_of_string ''amp;'' then 0x26 # text_of_markup (drop 4 cs)
      else if c = 0x26 \<and> take 5 cs = js_of_string ''nbsp;'' then 0xA0 # text_of_markup (drop 5 cs)
      else if c = 0x26 \<and> take 3 cs = js_of_string ''lt;'' then 0x3C # text_of_markup (drop 3 cs)
      else if c = 0x26 \<and> take 3 cs = js_of_string ''gt;'' then 0x3E # text_of_markup (drop 3 cs)
      else c # text_of_markup cs)"

subsection \<open>The document written into the frame (loadToolIntoIframe)\<close>

text \<open>
  The template literal is a sequence of host-authored chunks and interpolations. The
  chunks keep the template's text, without its indentation and blank lines.
\<close>

definition shell_head_open :: jstring where
  \<open>shell_head_open =
         js_of_string ''<!DOCTYPE html>\<newline><html lang="en">\<newline><head>\<newline>''
       @ js_of_string ''<meta charset="UTF-8">\<newline>''
       @ js_of_string ''<meta name="viewport" content="width=device-width, initial-scale=1.0">\<newline>''
       @ js_of_string ''<title>''\<close>

definition shell_base_styles :: jstring where
  \<open>shell_base_styles =
         js_of_string ''</title>\<newline><style>\<newline>body {\<newline>''
       @ js_of_string ''margin: 0;\<newline>padding: 20px;\<newline>''
       @ js_of_string ''font-family: -apple-system, BlinkMacSystemFont, 'Segoe UI', Roboto, Oxygen, Ubuntu, sans-serif;\<newline>''
       @ js_of_string ''background: #f5f5f5;\<newline>color: #333;\<newline>}\<newline>''
       @ js_of_string ''.tool-container {\<newline>max-width: 1200px;\<newline>''
       @ js_of_string ''margin: 0 auto;\<newline>}\<newline>.tool-header {\<newline>''
       @ js_of_string ''margin-bottom: 30px;\<newline>padding-bottom: 20px;\<newline>''
       @ js_of_string ''border-bottom: 2px solid #e0e0e0;\<newline>}\<newline>''
       @ js_of_string ''.tool-title {\<newline>color: #2c3e50;\<newline>''
       @ js_of_string ''margin: 0 0 10px 0;\<newline>}\<newline>.tool-description {\<newline>''
       @ js_of_string ''color: #7f8c8d;\<newline>margin: 0;\<newline>}\<newline>''
       @ js_of_string ''.tool-watermark {\<newline>position: fixed;\<newline>''
       @ js_of_string ''bottom: 10px;\<newline>right: 10px;\<newline>''
       @ js_of_string ''color: rgba(0, 0, 0, 0.1);\<newline>font-size: 12px;\<newline>''
       @ js_of_string ''pointer-events: none;\<newline>user-select: none;\<newline>}\<newline>''
       @ js_of_string ''/* Dark mode support for tools */\<newline>''
       @ js_of_string ''@media (prefers-color-scheme: dark) {\<newline>body {\<newline>''
       @ js_of_string ''background: #1a1a1a;\<newline>color: #e0e0e0;\<newline>}\<newline>''
       @ js_of_string ''.tool-header {\<newline>border-bottom-color: #333;\<newline>''
       @ js_of_string ''}\<newline>.tool-title {\<newline>color: #fff;\<newline>}\<newline>''
       @ js_of_string ''.tool-description {\<newline>color: #aaa;\<newline>}\<newline>''
       @ js_of_string ''}\<newline></style>\<newline>''
       @ js_of_string ''<!-- Tool-specific styles from database -->\<newline>''\<close>

definition shell_body_open :: jstring where
  \<open>shell_body_open =
         js_of_string ''\<newline></head>\<newline><body>\<newline>''
       @ js_of_string ''<div class="tool-container">\<newline>''\<close>

definition shell_header_open :: jstring where
  \<open>shell_header_open =
         js_of_string ''\<newline><div class="tool-header">\<newline><h1 class="tool-title">''\<close>

definition shell_name_close :: jstring where
  \<open>shell_name_close =
         js_of_string ''</h1>\<newline>''\<close>

definition shell_description_open :: jstring where
  \<open>shell_description_open =
         js_of_string ''\<newline><p class="tool-description">''\<close>

definition shell_description_close :: jstring where
  \<open>shell_description_close =
         js_of_string ''</p>\<newline>''\<close>

definition shell_header_close :: jstring where
  \<open>shell_header_close =
         js_of_string ''\<newline></div>\<newline>''\<close>

definition shell_content_comment :: jstring where
  \<open>shell_content_comment =
         js_of_string ''\<newline><!-- Tool content -->\<newline>''\<close>

definition shell_watermark :: jstring where
  \<open>shell_watermark =
         js_of_string ''\<newline></div>\<newline><div class="tool-watermark">\<newline>''
       @ js_of_string ''Powered by Dark Tech Zone\<newline></div>\<newline>''
       @ js_of_string ''<!-- Tool-specific scripts from database -->\<newline>''\<close>

definition shell_before_host_script :: jstring where
  \<open>shell_before_host_script =
         js_of_string ''\<newline>''\<close>

definition host_script_text :: jstring where
  \<open>host_script_text =
         js_of_string ''<script>\<newline>''
       @ js_of_string ''// Tool isolation - prevent access to parent window\<newline>''
       @ js_of_string ''if (window.parent !== window) {\<newline>''
       @ js_of_string ''// Block access to parent\<newline>''
       @ js_of_string ''Object.defineProperty(window, 'parent', { get: () => null });\<newline>''
       @ js_of_string ''Object.defineProperty(window, 'top', { get: () => null });\<newline>''
       @ js_of_string ''Object.defineProperty(window, 'opener', { get: () => null });\<newline>''
       @ js_of_string ''// Block dangerous functions\<newline>''
       @ js_of_string ''window.open = () => null;\<newline>''
       @ js_of_string ''window.alert = () => console.log('[Tool] Alert blocked by sandbox');\<newline>''
       @ js_of_string ''window.confirm = () => { console.log('[Tool] Confirm blocked by sandbox'); return false; };\<newline>''
       @ js_of_string ''window.prompt = () => { console.log('[Tool] Prompt blocked by sandbox'); return null; };\<newline>''
       @ js_of_string ''// Prevent navigation\<newline>''
       @ js_of_string ''window.addEventListener('beforeunload', (e) => {\<newline>''
       @ js_of_string ''e.preventDefault();\<newline>e.returnValue = ''
       @ js_of_string [CHR 0x27, CHR 0x27]
       @ js_of_string '';\<newline>});\<newline>}\<newline>// Tool initialization\<newline>''
       @ js_of_string ''document.addEventListener('DOMContentLoaded', () => {\<newline>''
       @ js_of_string ''console.log('Tool loaded in sandboxed environment');\<newline>''
       @ js_of_string ''// Dispatch loaded event (for parent to detect)\<newline>''
       @ js_of_string ''try {\<newline>''
       @ js_of_string ''window.dispatchEvent(new Event('tool-loaded'));\<newline>''
       @ js_of_string ''} catch (e) {}\<newline>});\<newline></script>''\<close>

definition shell_doc_close :: jstring where
  \<open>shell_doc_close =
         js_of_string ''\<newline></body>\<newline></html>''\<close>

text \<open>
  The pieces of the template, in document order: host-authored shell text, a header
  text slot, the tool's stylesheet text, markup and script, and the host's own closing
  script.
\<close>

datatype piece =
    Shell jstring
  | HeaderText jstring
  | ToolStyles jstring
  | ToolMarkup jstring
  | ToolScript jstring
  | HostScript

fun render :: "piece \<Rightarrow> jstring" where
  "render (Shell s) = s"
| "render (HeaderText t) = t"
| "render (ToolStyles c) = c"
| "render (ToolMarkup h) = h"
| "render (ToolScript js) = js_of_string ''<script>'' @ js @ js_of_string ''</script>''"
| "render HostScript = host_script_text"

definition header_pieces :: "tool_data \<Rightarrow> piece list" where
  "header_pieces td =
     (if showHeader td \<noteq> Some False then
        [Shell shell_header_open, HeaderText (escapeHtml (name td)), Shell shell_name_close]
        @ (if truthy (description td) then
             [Shell shell_description_open, HeaderText (escapeHtml (description td)),
              Shell shell_description_close]
           else [])
        @ [Shell shell_header_close]
      else [])"

definition toolHtml_pieces :: "tool_data \<Rightarrow> piece list" where
  "toolHtml_pieces td =
     [Shell shell_head_open, HeaderText (escapeHtml (name td)), Shell shell_base_styles,
      ToolStyles (or_else (hostedCss td) []), Shell shell_body_open]
     @ header_pieces td
     @ [Shell shell_content_comment, ToolMarkup (interpolate (hostedHtml td)),
        Shell shell_watermark]
     @ (if truthy (hostedJs td) then [ToolScript (interpolate (hostedJs td))] else [])
     @ [Shell shell_before_host_script, HostScript, Shell shell_doc_close]"

definition toolHtml :: "tool_data \<Rightarrow> jstring" where
  "toolHtml td = concat (map render (toolHtml_pieces td))"

subsection \<open>The viewer\<close>

record iframe =
  className :: jstring
  sandbox :: jstring
  allow :: jstring
  referrerpolicy :: jstring
  csp :: jstring
  display :: "jstring option"
  written :: "piece list option"
  events_attached :: bool

text \<open>What the element \<open>viewer-content\<close> of the host page shows.\<close>

datatype content = EmptyContent | FrameMounted | LoadingPanel jstring | ErrorPanel jstring

record viewer = page +
  toolId :: "jstring option"
  toolData :: "tool_data option"
  iframe :: "iframe option"
  viewer_content :: "content option"
  document_title :: jstring
  tool_title :: "jstring option"

text \<open>
  What \<open>loadTool\<close>'s \<open>try\<close> block can throw: its own four errors, the rejection of the
  read, and the engine's \<open>TypeError\<close> for a property read on \<open>null\<close>, each with its
  message.
\<close>

datatype load_error =
  NotFound | Disabled | TypeMismatch | PayloadMissing | StoreFailure jstring | TypeError jstring

fun error_message :: "load_error \<Rightarrow> jstring" where
  "error_message NotFound = js_of_string ''Tool not found''"
| "error_message Disabled = js_of_string ''This tool is currently disabled''"
| "error_message TypeMismatch = js_of_string ''This tool cannot be viewed in the viewer''"
| "error_message PayloadMissing = js_of_string ''No HTML content available for this tool''"
| "error_message (StoreFailure msg) = msg"
| "error_message (TypeError msg) = msg"

text \<open>
  \<open>db.collection('tools').doc(id).get()\<close>: the read rejects with a message, or gives a
  snapshot that exists or not.
\<close>

type_synonym tool_db = "jstring option \<Rightarrow> jstring + tool_data option"

definition setupViewer :: "viewer \<Rightarrow> viewer" where
  \<open>setupViewer v =
     (let fr = \<lparr> className = js_of_string ''viewer-frame'',
                  sandbox = js_of_string
                    ''allow-scripts allow-same-origin allow-forms allow-modals allow-popups'',
                  allow = js_of_string ''accelerometer; ambient-light-sensor; camera; ''
                    @ js_of_string ''encrypted-media; geolocation; gyroscope; microphone; ''
                    @ js_of_string ''midi; payment; usb; vr'',
                  referrerpolicy = js_of_string ''no-referrer'',
                  csp = js_of_string ''default-src 'self'; script-src 'self' 'unsafe-inline' ''
                    @ js_of_string '''unsafe-eval'; style-src 'self' 'unsafe-inline';'',
                  display = None, written = None, events_attached = False \<rparr>
      in v\<lparr> iframe := Some fr,
            viewer_content := map_option (\<lambda>_. FrameMounted) (viewer_content v) \<rparr>)\<close>

text \<open>
  \<open>showLoading\<close> and \<open>showError\<close> do nothing on a page without the element
  \<open>viewer-content\<close>. \<open>showLoading\<close> is only called once \<open>setupViewer\<close> has made the
  frame.
\<close>

definition showLoading :: "bool \<Rightarrow> viewer \<Rightarrow> viewer" where
  "showLoading show v =
     (case viewer_content v of
        None \<Rightarrow> v
      | Some _ \<Rightarrow>
          if show then
            v\<lparr> iframe := map_option (\<lambda>f. f\<lparr>display := Some (js_of_string ''none'')\<rparr>) (iframe v),
               viewer_content := Some (LoadingPanel
                 (or_else (case toolData v of None \<Rightarrow> None | Some td \<Rightarrow> name td)
                    (js_of_string ''tool''))) \<rparr>
          else
            v\<lparr> iframe := map_option (\<lambda>f. f\<lparr>display := Some (js_of_string ''block'')\<rparr>) (iframe v),
               viewer_content := Some FrameMounted \<rparr>)"

definition showError :: "jstring \<Rightarrow> viewer \<Rightarrow> viewer" where
  "showError message v =
     v\<lparr> viewer_content := map_option (\<lambda>_. ErrorPanel (escapeHtml (Some message))) (viewer_content v) \<rparr>"

text \<open>
  \<open>loadToolIntoIframe\<close> returns at once without a frame or without hosted markup.
  Its write goes through \<open>this.iframe.contentDocument || this.iframe.contentWindow.document\<close>:
  a frame that is not in the page's document has neither a document nor a window, both
  are \<open>null\<close>, and the read of \<open>document\<close> on \<open>null\<close> throws. The frame is in the
  document when \<open>viewer-content\<close> holds it: \<open>setupViewer\<close> and \<open>showLoading(false)\<close>
  append it, and every assignment to \<open>innerHTML\<close> (the loading panel, the error panel)
  takes it out. With the frame in the document the composed document is written and the
  frame's listeners are attached. The messages are the engine's.
\<close>

definition null_read_message :: "string \<Rightarrow> jstring" where
  "null_read_message property =
     js_of_string ''Cannot read properties of null (reading '' @ js_of_string [CHR 0x27]
       @ js_of_string property @ js_of_string [CHR 0x27] @ js_of_string '')''"

definition loadToolIntoIframe :: "viewer \<Rightarrow> load_error + viewer" where
  "loadToolIntoIframe v =
     (case iframe v of
        None \<Rightarrow> Inr v
      | Some fr \<Rightarrow>
          (case toolData v of
             None \<Rightarrow> Inl (TypeError (null_read_message ''hostedHtml''))
           | Some td \<Rightarrow>
               if \<not> truthy (hostedHtml td) then Inr v
               else if viewer_content v \<noteq> Some FrameMounted
                 then Inl (TypeError (null_read_message ''document''))
               else Inr (v\<lparr> iframe := Some (fr\<lparr> written := Some (toolHtml_pieces td),
                                                     events_attached := True \<rparr>) \<rparr>)))"


definition trackToolView :: "viewer \<Rightarrow> viewer" where
  "trackToolView v =
     (let timestamp = clock v;
          dateKey = iso_date v (clock v);
          tid = interpolate (toolId v);
          updates =
            [(js_of_string ''tool_views/'' @ tid @ js_of_string ''/total'', VIncrement 1),
             (js_of_string ''tool_views/'' @ tid @ js_of_string ''/last_view'', VNum timestamp),
             (js_of_string ''daily_views/'' @ dateKey @ js_of_string ''/'' @ tid, VIncrement 1)];
          calls = [RUpdate [] updates];
          v1 = await_all (js_of_string ''Error tracking tool view:'') calls v
      in if all_resolve (rtdb_rejects v) calls then
           v1\<lparr> local_storage :=
                  (js_of_string ''last_tool_view_'' @ tid,
                   js_of_string (toString_radix 10 timestamp)) # local_storage v1 \<rparr>
         else v1)"

text \<open>
  The checks of \<open>loadTool\<close>'s \<open>try\<close> block on what the read gave, in the order of the
  source; each \<open>throw\<close> is an error value.
\<close>

definition check_tool :: "jstring + tool_data option \<Rightarrow> load_error + tool_data" where
  "check_tool r =
     (case r of
        Inl msg \<Rightarrow> Inl (StoreFailure msg)
      | Inr None \<Rightarrow> Inl NotFound
      | Inr (Some td) \<Rightarrow>
          if \<not> enabled td then Inl Disabled
          else if tool_type td \<noteq> js_of_string ''hosted'' then Inl TypeMismatch
          else if \<not> truthy (hostedHtml td) then Inl PayloadMissing
          else Inr td)"

text \<open>
  \<open>loadTool\<close>: the loading panel, the read, \<open>this.toolData = toolDoc.data()\<close> as soon as
  the snapshot exists, the checks, the titles, the document and the view count; whatever
  is thrown on the way goes to \<open>catch\<close>, which logs it and shows the error panel; and in
  every case \<open>finally\<close>. \<open>tool_title\<close> is the text of the element \<open>tool-title\<close>, where the
  page has one; a missing name gives it the empty text.
\<close>

definition catch_load_error :: "load_error \<Rightarrow> viewer \<Rightarrow> viewer" where
  "catch_load_error e v =
     showError (error_message e)
       (v\<lparr>console := console v @ [js_of_string ''Error loading tool: '' @ error_message e]\<rparr>)"

definition loadTool :: "tool_db \<Rightarrow> viewer \<Rightarrow> viewer" where
  "loadTool db v =
     (let v1 = showLoading True v;
          r = db (toolId v1);
          v2 = (case r of Inr (Some td) \<Rightarrow> v1\<lparr>toolData := Some td\<rparr> | _ \<Rightarrow> v1);
          v3 = (case check_tool r of
                  Inl e \<Rightarrow> catch_load_error e v2
                | Inr td \<Rightarrow>
                    (let v2t = v2\<lparr> document_title := interpolate (name td)
                                       @ js_of_string '' - Dark Tech Zone'',
                                     tool_title := map_option (\<lambda>_. or_else (name td) [])
                                                     (tool_title v2) \<rparr>
                     in case loadToolIntoIframe v2t of
                          Inl e \<Rightarrow> catch_load_error e v2t
                        | Inr v2w \<Rightarrow> trackToolView v2w))
      in showLoading False v3)"

text \<open>\<open>ToolViewer.init\<close>, with the \<open>id\<close> parameter of the page's URL.\<close>

definition viewer_init :: "jstring option \<Rightarrow> tool_db \<Rightarrow> viewer \<Rightarrow> viewer" where
  "viewer_init url_id db v =
     (let v0 = v\<lparr>toolId := url_id\<rparr>
      in if \<not> truthy url_id then showError (js_of_string ''No tool ID specified'') v0
         else loadTool db (setupViewer v0))"

subsection \<open>Scripts running in the frame\<close>














subsection \<open>A tool, its script and a page to load it on\<close>

definition tool_example :: tool_data where
  \<open>tool_example =
     \<lparr> name = Some (js_of_string ''<img src=x onerror=steal()>''),
       description = Some (js_of_string ''Fish & <b>chips</b>''),
       enabled = True,
       tool_type = js_of_string ''hosted'',
       hostedHtml = Some (js_of_string ''<p id="out"></p>''),
       hostedCss = Some (js_of_string ''<style>p { color: red }</style>''),
       hostedJs = Some (js_of_string ''parent.document.title; top.location.href; alert(1)''),
       showHeader = None \<rparr>\<close>


definition viewer_example :: viewer where
  "viewer_example =
     \<lparr> clock = 1700000000000, iso_date = (\<lambda>_. js_of_string ''2023-11-14''),
       rtdb_rejects = (\<lambda>_. False), rtdb_log = [], local_storage = [], console = [],
       toolId = None, toolData = None, iframe = None, viewer_content = Some EmptyContent,
       document_title = js_of_string ''Viewer'', tool_title = Some [] \<rparr>"

definition db_example :: tool_db where
  "db_example i =
     (if i = Some (js_of_string ''t1'') then Inr (Some tool_example)
      else if i = Some (js_of_string ''t2'') then Inr (Some (tool_example\<lparr>enabled := False\<rparr>))
      else if i = Some (js_of_string ''t3'')
        then Inr (Some (tool_example\<lparr>tool_type := js_of_string ''external''\<rparr>))
      else if i = Some (js_of_string ''t4'') then Inr (Some (tool_example\<lparr>hostedHtml := Some []\<rparr>))
      else Inr None)"

section \<open>Session tracker (AnalyticsTracker)\<close>

text \<open>
  The tracker's fields, the browser it runs in and its two timers. A pending
  \<open>setTimeout\<close> or \<open>setInterval\<close> is the time at which it is due next; \<open>None\<close> is a
  timer that was never set, was cleared or has fired.
\<close>

record tracker = page +
  browser :: browser_env
  sessionId :: jstring
  userId :: jstring
  sessionStart :: int
  pageViews :: int
  lastActivity :: int
  activityTimeout :: "int option"
  heartbeatInterval :: "int option"

subsection \<open>FirebaseUtils.generateSessionId\<close>

definition generateSessionId :: "tracker \<Rightarrow> jstring \<times> tracker" where
  "generateSessionId w =
     (let stored = map_of (local_storage w) (js_of_string ''dtz_session_id'')
      in if truthy stored then (interpolate stored, w)
         else
           (let sid = js_of_string ''session_'' @ js_of_string (toString_radix 10 (clock w))
                        @ js_of_string ''_'' @ take 9 (drop 2 (math_random (browser w)))
            in (sid,
                w\<lparr> local_storage :=
                      (js_of_string ''dtz_session_start'', js_of_string (toString_radix 10 (clock w)))
                      # (js_of_string ''dtz_session_id'', sid) # local_storage w \<rparr>)))"

subsection \<open>Reading the user agent\<close>

definition str_includes :: "jstring \<Rightarrow> string \<Rightarrow> bool" where
  "str_includes s sub = sublist (js_of_string sub) s"

definition detectBrowser :: "jstring \<Rightarrow> jstring" where
  "detectBrowser ua =
     (if str_includes ua ''Chrome'' \<and> \<not> str_includes ua ''Edg'' then js_of_string ''Chrome''
      else if str_includes ua ''Firefox'' then js_of_string ''Firefox''
      else if str_includes ua ''Safari'' \<and> \<not> str_includes ua ''Chrome'' then js_of_string ''Safari''
      else if str_includes ua ''Edg'' then js_of_string ''Edge''
      else if str_includes ua ''Opera'' \<or> str_includes ua ''OPR'' then js_of_string ''Opera''
      else js_of_string ''Other'')"

definition detectOS :: "jstring \<Rightarrow> jstring" where
  "detectOS ua =
     (if str_includes ua ''Windows'' then js_of_string ''Windows''
      else if str_includes ua ''Mac'' then js_of_string ''macOS''
      else if str_includes ua ''Linux'' then js_of_string ''Linux''
      else if str_includes ua ''Android'' then js_of_string ''Android''
      else if str_includes ua ''iOS'' \<or> str_includes ua ''iPhone'' \<or> str_includes ua ''iPad''
        then js_of_string ''iOS''
      else js_of_string ''Unknown'')"

text \<open>\<open>/Mobi|Android/i.test(ua)\<close>: the letters A to Z match in either case.\<close>

definition ascii_lower :: "code_unit \<Rightarrow> code_unit" where
  "ascii_lower c = (if 0x41 \<le> c \<and> c \<le> 0x5A then c + 0x20 else c)"

definition is_mobile :: "jstring \<Rightarrow> bool" where
  "is_mobile ua = (str_includes (map ascii_lower ua) ''mobi'' \<or> str_includes (map ascii_lower ua) ''android'')"

subsection \<open>The tracker's methods\<close>

text \<open>
  Each method is modelled as run to its end before the next event is handled: its
  database calls stand in the log in the order of its \<open>await\<close>s, and a call that rejects
  sends the method to its \<open>catch\<close>, which logs and returns. \<open>Date.now()\<close> is the clock.
\<close>

definition session_path :: "tracker \<Rightarrow> jstring" where
  "session_path w = js_of_string ''sessions/'' @ sessionId w"

definition last_activity_path :: "tracker \<Rightarrow> jstring" where
  "last_activity_path w = js_of_string ''sessions/'' @ sessionId w @ js_of_string ''/last_activity''"

definition heartbeat_path :: "tracker \<Rightarrow> jstring" where
  "heartbeat_path w = js_of_string ''sessions/'' @ sessionId w @ js_of_string ''/heartbeat''"

definition startSession :: "tracker \<Rightarrow> tracker" where
  "startSession w =
     (let e = browser w;
          sessionData =
            [(js_of_string ''session_id'', VStr (sessionId w)),
             (js_of_string ''user_id'', VStr (userId w)),
             (js_of_string ''start_time'', VNum (sessionStart w)),
             (js_of_string ''user_agent'', VStr (nav_userAgent e)),
             (js_of_string ''language'', VStr (nav_language e)),
             (js_of_string ''platform'', VStr (nav_platform e)),
             (js_of_string ''screen_resolution'',
                VStr (js_of_string (toString_radix 10 (screen_width e)) @ js_of_string ''x''
                      @ js_of_string (toString_radix 10 (screen_height e)))),
             (js_of_string ''referrer'', VStr (or_else (Some (doc_referrer e)) (js_of_string ''direct''))),
             (js_of_string ''entry_url'', VStr (loc_href e)),
             (js_of_string ''is_mobile'', VBool (is_mobile (nav_userAgent e))),
             (js_of_string ''browser'', VStr (detectBrowser (nav_userAgent e))),
             (js_of_string ''os'', VStr (detectOS (nav_userAgent e)))];
          dateKey = iso_date w (clock w)
      in await_all (js_of_string ''Error starting session:'')
           [RSet (session_path w)
              (sessionData @
               [(js_of_string ''last_activity'', VNum (lastActivity w)),
                (js_of_string ''page_views'', VNum 1),
                (js_of_string ''status'', VStr (js_of_string ''active''))]),
            RSetValue (js_of_string ''daily_users/'' @ dateKey @ js_of_string ''/'' @ userId w)
              (VBool True),
            RSetValue (js_of_string ''stats/active_sessions/'' @ sessionId w) (VBool True)]
           w)"

text \<open>\<open>pathname.replace(/\//g, '_')\<close>.\<close>

definition pageKey_of :: "jstring \<Rightarrow> jstring" where
  "pageKey_of path = map (\<lambda>c. if c = 0x2F then 0x5F else c) path"

definition trackPageView :: "tracker \<Rightarrow> tracker" where
  "trackPageView w =
     (let w1 = w\<lparr> pageViews := pageViews w + 1, lastActivity := clock w \<rparr>;
          e = browser w1;
          pageData =
            [(js_of_string ''path'', VStr (loc_pathname e)),
             (js_of_string ''title'', VStr (doc_title e)),
             (js_of_string ''timestamp'', VNum (lastActivity w1)),
             (js_of_string ''session_id'', VStr (sessionId w1)),
             (js_of_string ''user_id'', VStr (userId w1))];
          dateKey = iso_date w1 (clock w1)
      in await_all (js_of_string ''Error tracking page view:'')
           [RSet (js_of_string ''page_views/'' @ sessionId w1 @ js_of_string ''/''
                    @ js_of_string (toString_radix 10 (pageViews w1)))
              pageData,
            RUpdate (session_path w1)
              [(js_of_string ''last_activity'', VNum (lastActivity w1)),
               (js_of_string ''page_views'', VNum (pageViews w1)),
               (js_of_string ''current_page'', VStr (loc_pathname e))],
            RTransactionIncrement
              (js_of_string ''daily_pages/'' @ dateKey @ js_of_string ''/''
                 @ pageKey_of (loc_pathname e))]
           w1)"

text \<open>
  \<open>trackToolInteraction\<close> sets \<open>lastActivity\<close> after its first two calls have resolved,
  and then writes it.
\<close>

definition trackToolInteraction ::
  "jstring \<Rightarrow> jstring \<Rightarrow> (jstring \<times> jsval) list \<Rightarrow> tracker \<Rightarrow> tracker" where
  "trackToolInteraction tid action metadata w =
     (let interactionData =
            [(js_of_string ''tool_id'', VStr tid),
             (js_of_string ''action'', VStr action),
             (js_of_string ''session_id'', VStr (sessionId w)),
             (js_of_string ''user_id'', VStr (userId w)),
             (js_of_string ''timestamp'', VNum (clock w))] @ metadata;
          first = [RPushSet (js_of_string ''tool_interactions'') interactionData,
                   RTransactionIncrement
                     (js_of_string ''tool_stats/'' @ tid @ js_of_string ''/'' @ action)]
      in if all_resolve (rtdb_rejects w) first then
           await_all (js_of_string ''Error tracking tool interaction:'')
             (first @ [RSetValue (last_activity_path w) (VNum (clock w))])
             (w\<lparr>lastActivity := clock w\<rparr>)
         else await_all (js_of_string ''Error tracking tool interaction:'') first w)"

definition endSession_calls :: "tracker \<Rightarrow> rtdb_op list" where
  "endSession_calls w =
     (let sessionDuration = clock w - sessionStart w
      in [RUpdate (session_path w)
            [(js_of_string ''end_time'', VNum (clock w)),
             (js_of_string ''duration'', VNum sessionDuration),
             (js_of_string ''status'', VStr (js_of_string ''ended'')),
             (js_of_string ''page_views'', VNum (pageViews w))],
          RRemove (js_of_string ''stats/active_sessions/'' @ sessionId w),
          RTransactionIncrement
            (js_of_string ''stats/session_durations/''
               @ js_of_string (getDurationBucket sessionDuration))])"

definition endSession :: "tracker \<Rightarrow> tracker" where
  "endSession w =
     (let w1 = await_all (js_of_string ''Error ending session:'') (endSession_calls w) w
      in if all_resolve (rtdb_rejects w) (endSession_calls w) then
           w1\<lparr> local_storage :=
                  (js_of_string ''session_'' @ sessionId w @ js_of_string ''_end'',
                   js_of_string (toString_radix 10 (clock w))) # local_storage w1 \<rparr>
         else w1)"

definition updateLastActivity :: "tracker \<Rightarrow> tracker" where
  "updateLastActivity w =
     await_all (js_of_string ''Error updating last activity:'')
       [RSetValue (last_activity_path w) (VNum (lastActivity w))] w"

definition trackEvent :: "jstring \<Rightarrow> (jstring \<times> jsval) list \<Rightarrow> tracker \<Rightarrow> tracker" where
  "trackEvent eventName data w =
     await_all (js_of_string ''Error tracking event:'')
       [RPushSet (js_of_string ''events'')
          ([(js_of_string ''event'', VStr eventName),
            (js_of_string ''session_id'', VStr (sessionId w)),
            (js_of_string ''user_id'', VStr (userId w)),
            (js_of_string ''timestamp'', VNum (clock w))] @ data)]
       w"

text \<open>\<open>setupHeartbeat\<close>: the interval is due every 30000 ms from now on.\<close>

definition setupHeartbeat :: "tracker \<Rightarrow> tracker" where
  "setupHeartbeat w = w\<lparr>heartbeatInterval := Some (clock w + 30000)\<rparr>"

subsection \<open>Events and timers\<close>

text \<open>
  What reaches the tracker after its construction: a call of \<open>trackPageView\<close> or
  \<open>trackToolInteraction\<close> by the page, a user input (\<open>mousedown\<close>, \<open>keydown\<close>, \<open>scroll\<close>,
  \<open>touchstart\<close>), a \<open>visibilitychange\<close> with the value of \<open>document.hidden\<close>, and
  \<open>beforeunload\<close>. The input listener sets \<open>lastActivity\<close>, clears the pending timeout and
  sets a new one, due in 1000 ms.
\<close>

datatype event =
    PageView
  | ToolInteraction jstring jstring "(jstring \<times> jsval) list"
  | UserInput
  | VisibilityChange bool
  | BeforeUnload

fun handle :: "event \<Rightarrow> tracker \<Rightarrow> tracker" where
  "handle PageView w = trackPageView w"
| "handle (ToolInteraction tid action metadata) w = trackToolInteraction tid action metadata w"
| "handle UserInput w = w\<lparr> lastActivity := clock w, activityTimeout := Some (clock w + 1000) \<rparr>"
| "handle (VisibilityChange hidden) w =
     (if hidden then trackEvent (js_of_string ''page_hidden'') [] w
      else updateLastActivity
             ((trackEvent (js_of_string ''page_visible'') [] w)\<lparr>lastActivity := clock w\<rparr>))"
| "handle BeforeUnload w = endSession w"

text \<open>
  A timer fires at the time it is due; the clock then shows that time. The interval's
  callback writes the heartbeat and the interval is due again 30000 ms later; the
  timeout's callback is \<open>updateLastActivity\<close>.
\<close>

definition fire_heartbeat :: "tracker \<Rightarrow> tracker" where
  "fire_heartbeat w =
     (case heartbeatInterval w of
        None \<Rightarrow> w
      | Some h \<Rightarrow>
          (let w1 = w\<lparr> clock := max (clock w) h, heartbeatInterval := Some (h + 30000) \<rparr>
           in await_all (js_of_string ''Heartbeat error:'')
                [RSetValue (heartbeat_path w1) (VNum (clock w1))] w1))"

definition fire_timeout :: "tracker \<Rightarrow> tracker" where
  "fire_timeout w =
     (case activityTimeout w of
        None \<Rightarrow> w
      | Some a \<Rightarrow> updateLastActivity (w\<lparr> clock := max (clock w) a, activityTimeout := None \<rparr>))"

definition heartbeat_due :: "int \<Rightarrow> tracker \<Rightarrow> bool" where
  "heartbeat_due t w = (case heartbeatInterval w of None \<Rightarrow> False | Some h \<Rightarrow> h \<le> t)"

definition timeout_due :: "int \<Rightarrow> tracker \<Rightarrow> bool" where
  "timeout_due t w = (case activityTimeout w of None \<Rightarrow> False | Some a \<Rightarrow> a \<le> t)"

definition heartbeat_first :: "tracker \<Rightarrow> bool" where
  "heartbeat_first w =
     (case (heartbeatInterval w, activityTimeout w) of
        (Some h, Some a) \<Rightarrow> h \<le> a
      | _ \<Rightarrow> True)"

text \<open>How many timer callbacks are still to run up to the time \<open>t\<close>.\<close>

definition pending_fires :: "int \<Rightarrow> tracker \<Rightarrow> nat" where
  "pending_fires t w =
     (case heartbeatInterval w of
        None \<Rightarrow> 0
      | Some h \<Rightarrow> if h \<le> t then nat ((t - h) div 30000) + 1 else 0)
     + (if timeout_due t w then 1 else 0)"

lemma pending_fires_heartbeat:
  "heartbeat_due t w \<Longrightarrow> pending_fires t (fire_heartbeat w) < pending_fires t w"
proof -
  assume "heartbeat_due t w"
  then obtain h where h: "heartbeatInterval w = Some h" "h \<le> t"
    by (auto simp: heartbeat_due_def split: option.splits)
  have "h + 30000 \<le> t \<Longrightarrow> nat ((t - (h + 30000)) div 30000) + 1 < nat ((t - h) div 30000) + 1"
  proof -
    assume a: "h + 30000 \<le> t"
    define x where "x = t - (h + 30000)"
    have e: "t - h = x + 30000" by (simp add: x_def)
    have "(t - h) div 30000 = x div 30000 + 1" unfolding e by simp
    moreover have "0 \<le> x div 30000" using a by (simp add: x_def)
    ultimately show ?thesis by (simp add: x_def)
  qed
  then show ?thesis
    using h by (simp add: pending_fires_def fire_heartbeat_def await_all_def timeout_due_def Let_def)
qed

lemma pending_fires_timeout:
  "timeout_due t w \<Longrightarrow> pending_fires t (fire_timeout w) < pending_fires t w"
  by (auto simp: pending_fires_def fire_timeout_def updateLastActivity_def await_all_def
      timeout_due_def split: option.splits)

text \<open>
  The event loop up to the time \<open>t\<close>: the timers that are due run in the order of their
  times (the interval first when both are due at the same time), then the clock shows
  \<open>t\<close>.
\<close>

function advance :: "int \<Rightarrow> tracker \<Rightarrow> tracker" where
  "advance t w =
     (if heartbeat_due t w \<and> (\<not> timeout_due t w \<or> heartbeat_first w)
        then advance t (fire_heartbeat w)
      else if timeout_due t w then advance t (fire_timeout w)
      else w\<lparr>clock := max (clock w) t\<rparr>)"
  by pat_completeness auto
termination
  by (relation "measure (\<lambda>(t, w). pending_fires t w)")
    (auto simp: pending_fires_heartbeat pending_fires_timeout)

declare advance.simps [simp del]

text \<open>A run: each event comes at a time; the timers due by then run before it.\<close>

fun run :: "(int \<times> event) list \<Rightarrow> tracker \<Rightarrow> tracker" where
  "run [] w = w"
| "run ((t, ev) # evs) w = run evs (handle ev (advance t w))"

subsection \<open>Construction\<close>

text \<open>
  The constructor and \<open>init\<close>, on a page and in a browser: the identifiers, the start
  time, \<open>startSession\<close>, the first \<open>trackPageView\<close>, the listeners (handled by \<open>handle\<close>)
  and the heartbeat. \<open>JSON.stringify\<close> is the parameter of the fingerprint.
\<close>

definition new_tracker :: "browser_env \<Rightarrow> page \<Rightarrow> tracker" where
  "new_tracker e p =
     page.extend p
       (tracker.fields e [] [] 0 0 0 None None)"

definition tracker_init :: "(fingerprint \<Rightarrow> jstring) \<Rightarrow> browser_env \<Rightarrow> page \<Rightarrow> tracker" where
  "tracker_init stringify e p =
     (let (sid, w1) = generateSessionId (new_tracker e p);
          w2 = w1\<lparr> sessionId := sid,
                  userId := js_of_string (init_userId stringify e),
                  sessionStart := clock w1,
                  lastActivity := clock w1 \<rparr>;
          w3 = setupHeartbeat (trackPageView (startSession w2))
      in w3\<lparr> console := console w3
                @ [js_of_string ''Analytics initialized - Session: '' @ take 8 (sessionId w3)
                   @ js_of_string ''...''] \<rparr>)"

text \<open>Reading the log: what was set at a path, and which status a call writes.\<close>

fun value_set_at :: "jstring \<Rightarrow> rtdb_op \<Rightarrow> jsval list" where
  "value_set_at p (RSetValue q v) = (if q = p then [v] else [])"
| "value_set_at p _ = []"

definition values_set_at :: "jstring \<Rightarrow> rtdb_op list \<Rightarrow> jsval list" where
  "values_set_at p ops = concat (map (value_set_at p) ops)"

fun status_written :: "jstring \<Rightarrow> rtdb_op \<Rightarrow> jsval list" where
  "status_written p (RSet q kvs) =
     (if q = p then map snd (filter (\<lambda>kv. fst kv = js_of_string ''status'') kvs) else [])"
| "status_written p (RUpdate q kvs) =
     (if q = p then map snd (filter (\<lambda>kv. fst kv = js_of_string ''status'') kvs) else [])"
| "status_written p _ = []"

definition statuses_written :: "jstring \<Rightarrow> rtdb_op list \<Rightarrow> jsval list" where
  "statuses_written p ops = concat (map (status_written p) ops)"

text \<open>A page to construct a tracker on.\<close>

definition page_example :: page where
  "page_example =
     \<lparr> clock = 1700000000000, iso_date = (\<lambda>_. js_of_string ''2023-11-14''),
       rtdb_rejects = (\<lambda>_. False), rtdb_log = [], local_storage = [], console = [] \<rparr>"

definition tracker_example :: tracker where
  "tracker_example =
     tracker_init stringify_example (env_example ''https://a.example/'' ''0.k3j9x1m2p4q'')
       page_example"

section \<open>Interaction counter\<close>

text \<open>
  The update function that \<open>trackToolInteraction\<close> passes to \<open>transaction\<close> on
  \<open>tool_stats/{toolId}/{action}\<close> (and \<open>trackPageView\<close> and \<open>endSession\<close> on their
  counters): \<open>current => (current || 0) + 1\<close>. A counter that was never written is
  \<open>null\<close>, here \<open>None\<close>; \<open>null\<close> and 0 are false.
\<close>

definition increment_update :: "int option \<Rightarrow> int" where
  "increment_update current =
     (case current of None \<Rightarrow> 0 | Some n \<Rightarrow> if n = 0 then 0 else n) + 1"

text \<open>What the store holds at a counter's path, as a number.\<close>

definition stored :: "int option \<Rightarrow> int" where
  "stored c = (case c of None \<Rightarrow> 0 | Some n \<Rightarrow> n)"

text \<open>
  Modelled from the spec: the store's two increment primitives, which belong to the
  database service and are not among the repository's sources. A caller increments either
  by an optimistic transaction (read the current value, compute the new one with the
  update function, compare-and-set, and start again on a conflict) or by the store's
  atomic increment (\<open>ServerValue.increment(1)\<close>, as \<open>trackToolView\<close> uses), which adds to
  the stored value in one step. Callers are independent; a schedule says whose step comes
  next, and a step that its caller cannot take changes nothing.
\<close>

datatype strategy = Transaction | AtomicIncrement

datatype caller = Idle strategy | Pending "int option" int | Done

datatype sched_step = ReadCurrent nat | CompareAndSet nat | ServerIncrement nat

type_synonym counter_config = "int option \<times> caller list"

fun counter_step :: "sched_step \<Rightarrow> counter_config \<Rightarrow> counter_config" where
  "counter_step (ReadCurrent i) (c, cs) =
     (if i < length cs \<and> cs ! i = Idle Transaction
        then (c, cs[i := Pending c (increment_update c)])
      else (c, cs))"
| "counter_step (CompareAndSet i) (c, cs) =
     (if i < length cs then
        (case cs ! i of
           Pending v new \<Rightarrow>
             if c = v then (Some new, cs[i := Done]) else (c, cs[i := Idle Transaction])
         | _ \<Rightarrow> (c, cs))
      else (c, cs))"
| "counter_step (ServerIncrement i) (c, cs) =
     (if i < length cs \<and> cs ! i = Idle AtomicIncrement
        then (Some (stored c + 1), cs[i := Done])
      else (c, cs))"

definition run_schedule :: "sched_step list \<Rightarrow> counter_config \<Rightarrow> counter_config" where
  "run_schedule sched cfg = fold counter_step sched cfg"

definition count_done :: "caller list \<Rightarrow> nat" where
  "count_done cs = length (filter (\<lambda>s. s = Done) cs)"

chapter \<open>Properties\<close>

section \<open>Duration buckets\<close>

text \<open>
  C6: the bucket of a duration is decided by its whole seconds \<open>s\<close> on half-open,
  lower-inclusive intervals: below 10 it is "0-10s", from 10 to below 30 "10-30s", from 30
  to below 60 "30-60s", from 60 to below 300 "1-5m", from 300 to below 600 "5-10m", from
  600 to below 1800 "10-30m", from 1800 to below 3600 "30-60m", and from 3600 on "60m+".
\<close>

theorem getDurationBucket_intervals:
  fixes duration s :: int
  assumes "s = duration div 1000"
  shows "(s < 10 \<longrightarrow> getDurationBucket duration = ''0-10s'')
       \<and> (10 \<le> s \<and> s < 30 \<longrightarrow> getDurationBucket duration = ''10-30s'')
       \<and> (30 \<le> s \<and> s < 60 \<longrightarrow> getDurationBucket duration = ''30-60s'')
       \<and> (60 \<le> s \<and> s < 300 \<longrightarrow> getDurationBucket duration = ''1-5m'')
       \<and> (300 \<le> s \<and> s < 600 \<longrightarrow> getDurationBucket duration = ''5-10m'')
       \<and> (600 \<le> s \<and> s < 1800 \<longrightarrow> getDurationBucket duration = ''10-30m'')
       \<and> (1800 \<le> s \<and> s < 3600 \<longrightarrow> getDurationBucket duration = ''30-60m'')
       \<and> (3600 \<le> s \<longrightarrow> getDurationBucket duration = ''60m+'')"
  using assms by (simp add: getDurationBucket_def Let_def)

theorem getDurationBucket_intervals_witness:
  "getDurationBucket 5000 = ''0-10s'' \<and> getDurationBucket 9999 = ''0-10s''
   \<and> getDurationBucket 10000 = ''10-30s'' \<and> getDurationBucket 45000 = ''30-60s''
   \<and> getDurationBucket 60000 = ''1-5m'' \<and> getDurationBucket 300000 = ''5-10m''
   \<and> getDurationBucket 600000 = ''10-30m'' \<and> getDurationBucket 1800000 = ''30-60m''
   \<and> getDurationBucket 7200000 = ''60m+''"
  using getDurationBucket_intervals [of 5 5000] getDurationBucket_intervals [of 9 9999]
    getDurationBucket_intervals [of 10 10000] getDurationBucket_intervals [of 45 45000]
    getDurationBucket_intervals [of 60 60000] getDurationBucket_intervals [of 300 300000]
    getDurationBucket_intervals [of 600 600000] getDurationBucket_intervals [of 1800 1800000]
    getDurationBucket_intervals [of 7200 7200000]
  by simp

section \<open>Browser fingerprint\<close>

lemma digit_chars_length: "length digit_chars = 36"
  by (simp add: digit_chars_def)

lemma digits_radix_chars:
  "2 \<le> r \<Longrightarrow> r \<le> 36 \<Longrightarrow> set (digits_radix r n) \<subseteq> set digit_chars"
proof (induction r n rule: digits_radix.induct)
  case (1 r n)
  show ?case
  proof (cases "n < r")
    case True
    with 1(2,3) have "n < length digit_chars" by (simp add: digit_chars_length)
    then show ?thesis using True 1(2) by (subst digits_radix.simps) simp
  next
    case False
    have "n mod r < length digit_chars"
    proof -
      have "n mod r < r" using 1(2) by simp
      then show ?thesis using 1(3) by (simp add: digit_chars_length)
    qed
    moreover have "set (digits_radix r (n div r)) \<subseteq> set digit_chars"
      using 1 False by simp
    ultimately show ?thesis using False 1(2) by (subst digits_radix.simps) simp
  qed
qed

lemma minus_not_digit: "CHR ''-'' \<notin> set digit_chars"
  by (simp add: digit_chars_def)

lemma digits_radix_nonempty: "digits_radix r n \<noteq> []"
  by (subst digits_radix.simps) simp

lemma js_and_range: "- (2 ^ 31) \<le> js_and x y \<and> js_and x y < 2 ^ 31"
  unfolding js_and_def
  using sint_ge [of "(word_of_int x :: 32 word) AND word_of_int y"]
        sint_lt [of "(word_of_int x :: 32 word) AND word_of_int y"] by simp

lemma hash_loop_range:
  "- (2 ^ 31) \<le> h \<Longrightarrow> h < 2 ^ 31 \<Longrightarrow> - (2 ^ 31) \<le> hash_loop h cs \<and> hash_loop h cs < 2 ^ 31"
proof (induction cs arbitrary: h)
  case Nil then show ?case by simp
next
  case (Cons c cs)
  show ?case using Cons.IH js_and_range by (simp add: Let_def)
qed

lemma collect_fingerprint_cong:
  assumes "nav_userAgent e1 = nav_userAgent e2" and "nav_language e1 = nav_language e2"
    and "nav_platform e1 = nav_platform e2"
    and "screen_width e1 = screen_width e2" and "screen_height e1 = screen_height e2"
    and "screen_colorDepth e1 = screen_colorDepth e2"
    and "intl_timeZone e1 = intl_timeZone e2"
    and "nav_cookieEnabled e1 = nav_cookieEnabled e2"
    and "nav_doNotTrack e1 = nav_doNotTrack e2"
  shows "collect_fingerprint e1 = collect_fingerprint e2"
  using assms by (simp add: collect_fingerprint_def)

lemma fingerprint_base36:
  "\<exists>n::int. 0 \<le> n \<and> n \<le> 2 ^ 31 \<and> getBrowserFingerprint stringify e = toString_radix 36 n
      \<and> getBrowserFingerprint stringify e \<noteq> []
      \<and> set (getBrowserFingerprint stringify e) \<subseteq> set digit_chars"
proof -
  define h where "h = hash_loop 0 (stringify (collect_fingerprint e))"
  have r: "- (2 ^ 31) \<le> h \<and> h < 2 ^ 31"
    unfolding h_def by (rule hash_loop_range) simp_all
  have eq: "getBrowserFingerprint stringify e = toString_radix 36 \<bar>h\<bar>"
    by (simp add: getBrowserFingerprint_def h_def Let_def)
  have d: "toString_radix 36 \<bar>h\<bar> = digits_radix 36 (nat \<bar>h\<bar>)"
    by (simp add: toString_radix_def)
  have "0 \<le> \<bar>h\<bar> \<and> \<bar>h\<bar> \<le> 2 ^ 31" using r by linarith
  moreover have "set (digits_radix 36 (nat \<bar>h\<bar>)) \<subseteq> set digit_chars"
    by (rule digits_radix_chars) simp_all
  ultimately show ?thesis
    using eq d digits_radix_nonempty [of 36 "nat \<bar>h\<bar>"] by (intro exI [of _ "\<bar>h\<bar>"]) simp
qed

text \<open>
  C10: the fingerprint is a function of the collected attributes alone: two environments
  that agree on user agent, language, platform, screen size, colour depth, time zone,
  cookies-enabled flag and do-not-track flag give the same identifier (and the same
  pseudo-user-id), whatever their referrers, locations and random sources are. The
  identifier is \<open>toString(36)\<close> of an integer between 0 and 2^31: it is not empty and
  made of the digits 0-9 and a-z only.
\<close>

theorem getBrowserFingerprint_deterministic:
  assumes "nav_userAgent e1 = nav_userAgent e2" and "nav_language e1 = nav_language e2"
    and "nav_platform e1 = nav_platform e2"
    and "screen_width e1 = screen_width e2" and "screen_height e1 = screen_height e2"
    and "screen_colorDepth e1 = screen_colorDepth e2"
    and "intl_timeZone e1 = intl_timeZone e2"
    and "nav_cookieEnabled e1 = nav_cookieEnabled e2"
    and "nav_doNotTrack e1 = nav_doNotTrack e2"
  shows "getBrowserFingerprint stringify e1 = getBrowserFingerprint stringify e2
       \<and> init_userId stringify e1 = init_userId stringify e2
       \<and> (\<exists>n::int. 0 \<le> n \<and> n \<le> 2 ^ 31
             \<and> getBrowserFingerprint stringify e1 = toString_radix 36 n
             \<and> getBrowserFingerprint stringify e1 \<noteq> []
             \<and> set (getBrowserFingerprint stringify e1) \<subseteq> set digit_chars)"
proof -
  have "collect_fingerprint e1 = collect_fingerprint e2"
    using assms by (rule collect_fingerprint_cong)
  then have "getBrowserFingerprint stringify e1 = getBrowserFingerprint stringify e2"
    by (simp add: getBrowserFingerprint_def)
  then show ?thesis
    using fingerprint_base36 [of stringify e1] by (simp add: init_userId_def)
qed

theorem getBrowserFingerprint_deterministic_witness:
  "getBrowserFingerprint stringify_example (env_example ''https://a.example/'' ''0.k3j9x1m2p4q'') = ''87txfg''
   \<and> getBrowserFingerprint stringify_example (env_example [] ''0.zq81hd03nsa'') = ''87txfg''"
proof -
  have h: "hash_loop 0 (js_of_string ''Mozilla/4.0en-USLinux1920x1080UTC'') = (- 496883068)"
    by code_simp
  have w: "toString_radix 10 1920 = ''1920''" "toString_radix 10 1080 = ''1080''"
    by (simp_all add: toString_radix_def digits_radix.simps digit_chars_def)
  have s: "stringify_example (collect_fingerprint (env_example ref rnd))
            = js_of_string ''Mozilla/4.0en-USLinux1920x1080UTC''" for ref rnd
    by (simp add: stringify_example_def collect_fingerprint_def env_example_def w js_of_string_def)
  have d: "toString_radix 36 \<bar>(- 496883068)\<bar> = ''87txfg''"
    by (simp add: toString_radix_def digits_radix.simps digit_chars_def)
  have a: "getBrowserFingerprint stringify_example (env_example ''https://a.example/'' ''0.k3j9x1m2p4q'') = ''87txfg''"
    unfolding getBrowserFingerprint_def Let_def s h by (rule d)
  have "getBrowserFingerprint stringify_example (env_example ''https://a.example/'' ''0.k3j9x1m2p4q'')
          = getBrowserFingerprint stringify_example (env_example [] ''0.zq81hd03nsa'')"
    using getBrowserFingerprint_deterministic
            [of "env_example ''https://a.example/'' ''0.k3j9x1m2p4q''" "env_example [] ''0.zq81hd03nsa''" stringify_example]
    by (simp add: env_example_def)
  with a show ?thesis by simp
qed


section \<open>Tool viewer\<close>

subsection \<open>The composed document\<close>

lemma escape_unit_no_delims: "0x3C \<notin> set (escape_unit c) \<and> 0x3E \<notin> set (escape_unit c)"
  by (simp add: escape_unit_def js_of_string_def)

lemma escapeHtml_no_delims: "0x3C \<notin> set (escapeHtml t) \<and> 0x3E \<notin> set (escapeHtml t)"
  using escape_unit_no_delims by (auto simp: escapeHtml_def)

lemma text_of_markup_escape_unit:
  "text_of_markup (escape_unit c @ rest) = c # text_of_markup rest"
  by (simp add: escape_unit_def js_of_string_def)

lemma text_of_markup_escapes: "text_of_markup (concat (map escape_unit s)) = s"
  by (induction s) (simp_all add: text_of_markup_escape_unit)

lemma text_of_markup_escapeHtml: "text_of_markup (escapeHtml (Some s)) = s"
  by (simp add: escapeHtml_def truthy_def interpolate_def text_of_markup_escapes)

text \<open>The document as one string: the template with its interpolations filled in.\<close>

lemma toolHtml_composition:
  "toolHtml td =
     shell_head_open @ escapeHtml (name td) @ shell_base_styles
     @ or_else (hostedCss td) [] @ shell_body_open
     @ (if showHeader td \<noteq> Some False then
          shell_header_open @ escapeHtml (name td) @ shell_name_close
          @ (if truthy (description td) then
               shell_description_open @ escapeHtml (description td) @ shell_description_close
             else [])
          @ shell_header_close
        else [])
     @ shell_content_comment @ interpolate (hostedHtml td) @ shell_watermark
     @ (if truthy (hostedJs td)
          then js_of_string ''<script>'' @ interpolate (hostedJs td) @ js_of_string ''</script>''
        else [])
     @ shell_before_host_script @ host_script_text @ shell_doc_close"
  by (simp add: toolHtml_def toolHtml_pieces_def header_pieces_def)

text \<open>Where the shell opens and closes the elements that hold the name and the description.\<close>

lemma shell_title_element:
  \<open>suffix (js_of_string ''<title>'') shell_head_open\<close>
  \<open>prefix (js_of_string ''</title>'') shell_base_styles\<close>
  by (simp_all add: shell_head_open_def shell_base_styles_def js_of_string_def suffix_to_prefix)

lemma shell_header_elements:
  \<open>suffix (js_of_string ''<h1 class="tool-title">'') shell_header_open\<close>
  \<open>prefix (js_of_string ''</h1>'') shell_name_close\<close>
  \<open>suffix (js_of_string ''<p class="tool-description">'') shell_description_open\<close>
  \<open>prefix (js_of_string ''</p>'') shell_description_close\<close>
  by (simp_all add: shell_header_open_def shell_name_close_def shell_description_open_def
      shell_description_close_def js_of_string_def suffix_to_prefix)

lemma element_sublist:
  assumes "suffix opening before" and "prefix closing after"
    and "doc = a @ before @ content @ after @ b"
  shows "sublist (opening @ content @ closing) doc"
proof -
  obtain p where p: "before = p @ opening" using assms(1) by (auto simp: suffix_def)
  obtain q where q: "after = closing @ q" using assms(2) by (auto simp: prefix_def)
  have "doc = (a @ p) @ (opening @ content @ closing) @ (q @ b)"
    using assms(3) p q by simp
  then show ?thesis unfolding sublist_def by blast
qed

text \<open>
  C5: the composed document is the host's shell with, in this order, the escaped name in
  the title, the tool's stylesheet text as it is, the header (when shown) with the
  escaped name between the tags of the heading and (when there is a description) the
  escaped description between the tags of its paragraph, the tool's markup as it is, and
  the tool's script text as it is between script tags; the name and the description
  stand nowhere else. Escaped text contains neither angle bracket and reads back as the
  original text, so a name with markup delimiters shows in the heading as literal text.
\<close>

theorem header_text_escaped_payload_raw:
  \<open>toolHtml td =
     shell_head_open @ escapeHtml (name td) @ shell_base_styles
     @ or_else (hostedCss td) [] @ shell_body_open
     @ (if showHeader td \<noteq> Some False then
          shell_header_open @ escapeHtml (name td) @ shell_name_close
          @ (if truthy (description td) then
               shell_description_open @ escapeHtml (description td) @ shell_description_close
             else [])
          @ shell_header_close
        else [])
     @ shell_content_comment @ interpolate (hostedHtml td) @ shell_watermark
     @ (if truthy (hostedJs td)
          then js_of_string ''<script>'' @ interpolate (hostedJs td) @ js_of_string ''</script>''
        else [])
     @ shell_before_host_script @ host_script_text @ shell_doc_close
   \<and> sublist (js_of_string ''<title>'' @ escapeHtml (name td) @ js_of_string ''</title>'')
         (toolHtml td)
   \<and> (showHeader td \<noteq> Some False \<longrightarrow>
         sublist (js_of_string ''<h1 class="tool-title">'' @ escapeHtml (name td)
                    @ js_of_string ''</h1>'')
           (toolHtml td))
   \<and> (showHeader td \<noteq> Some False \<and> truthy (description td) \<longrightarrow>
         sublist (js_of_string ''<p class="tool-description">'' @ escapeHtml (description td)
                    @ js_of_string ''</p>'')
           (toolHtml td))
   \<and> (\<forall>t. 0x3C \<notin> set (escapeHtml t) \<and> 0x3E \<notin> set (escapeHtml t))
   \<and> (\<forall>s. text_of_markup (escapeHtml (Some s)) = s)
   \<and> (\<forall>html. hostedHtml td = Some html \<longrightarrow> sublist html (toolHtml td))
   \<and> (\<forall>css. hostedCss td = Some css \<longrightarrow> sublist css (toolHtml td))
   \<and> (\<forall>js. hostedJs td = Some js \<and> js \<noteq> [] \<longrightarrow>
          sublist (js_of_string ''<script>'' @ js @ js_of_string ''</script>'') (toolHtml td))\<close>
proof (intro conjI allI impI)
  show "toolHtml td =
     shell_head_open @ escapeHtml (name td) @ shell_base_styles
     @ or_else (hostedCss td) [] @ shell_body_open
     @ (if showHeader td \<noteq> Some False then
          shell_header_open @ escapeHtml (name td) @ shell_name_close
          @ (if truthy (description td) then
               shell_description_open @ escapeHtml (description td) @ shell_description_close
             else [])
          @ shell_header_close
        else [])
     @ shell_content_comment @ interpolate (hostedHtml td) @ shell_watermark
     @ (if truthy (hostedJs td)
          then js_of_string ''<script>'' @ interpolate (hostedJs td) @ js_of_string ''</script>''
        else [])
     @ shell_before_host_script @ host_script_text @ shell_doc_close"
    by (rule toolHtml_composition)
next
  have "\<exists>b. toolHtml td = [] @ shell_head_open @ escapeHtml (name td) @ shell_base_styles @ b"
    unfolding toolHtml_composition by simp
  then obtain b where "toolHtml td = [] @ shell_head_open @ escapeHtml (name td) @ shell_base_styles @ b"
    by blast
  then show "sublist (js_of_string ''<title>'' @ escapeHtml (name td) @ js_of_string ''</title>'')
               (toolHtml td)"
    by (rule element_sublist [OF shell_title_element])
next
  assume h: "showHeader td \<noteq> Some False"
  have "\<exists>a b. toolHtml td = a @ shell_header_open @ escapeHtml (name td) @ shell_name_close @ b"
  proof (intro exI)
    show "toolHtml td
            = (shell_head_open @ escapeHtml (name td) @ shell_base_styles
               @ or_else (hostedCss td) [] @ shell_body_open)
              @ shell_header_open @ escapeHtml (name td) @ shell_name_close
              @ ((if truthy (description td) then
                    shell_description_open @ escapeHtml (description td) @ shell_description_close
                  else [])
                 @ shell_header_close
                 @ shell_content_comment @ interpolate (hostedHtml td) @ shell_watermark
                 @ (if truthy (hostedJs td)
                      then js_of_string ''<script>'' @ interpolate (hostedJs td)
                           @ js_of_string ''</script>''
                    else [])
                 @ shell_before_host_script @ host_script_text @ shell_doc_close)"
      unfolding toolHtml_composition using h by simp
  qed
  then obtain a b where
    "toolHtml td = a @ shell_header_open @ escapeHtml (name td) @ shell_name_close @ b"
    by blast
  then show "sublist (js_of_string ''<h1 class=\"tool-title\">'' @ escapeHtml (name td)
                        @ js_of_string ''</h1>'')
               (toolHtml td)"
    by (rule element_sublist [OF shell_header_elements(1,2)])
next
  assume h: "showHeader td \<noteq> Some False \<and> truthy (description td)"
  have "\<exists>a b. toolHtml td
                 = a @ shell_description_open @ escapeHtml (description td)
                   @ shell_description_close @ b"
  proof (intro exI)
    show "toolHtml td
            = (shell_head_open @ escapeHtml (name td) @ shell_base_styles
               @ or_else (hostedCss td) [] @ shell_body_open
               @ shell_header_open @ escapeHtml (name td) @ shell_name_close)
              @ shell_description_open @ escapeHtml (description td) @ shell_description_close
              @ (shell_header_close
                 @ shell_content_comment @ interpolate (hostedHtml td) @ shell_watermark
                 @ (if truthy (hostedJs td)
                      then js_of_string ''<script>'' @ interpolate (hostedJs td)
                           @ js_of_string ''</script>''
                    else [])
                 @ shell_before_host_script @ host_script_text @ shell_doc_close)"
      unfolding toolHtml_composition using h by simp
  qed
  then obtain a b where
    "toolHtml td = a @ shell_description_open @ escapeHtml (description td)
                   @ shell_description_close @ b"
    by blast
  then show "sublist (js_of_string ''<p class=\"tool-description\">''
                        @ escapeHtml (description td) @ js_of_string ''</p>'')
               (toolHtml td)"
    by (rule element_sublist [OF shell_header_elements(3,4)])
next
  fix t
  show "0x3C \<notin> set (escapeHtml t)" "0x3E \<notin> set (escapeHtml t)"
    using escapeHtml_no_delims [of t] by simp_all
next
  fix s show "text_of_markup (escapeHtml (Some s)) = s"
    by (rule text_of_markup_escapeHtml)
next
  fix html assume "hostedHtml td = Some html"
  then have "toolHtml td
               = (shell_head_open @ escapeHtml (name td) @ shell_base_styles
                  @ or_else (hostedCss td) [] @ shell_body_open
                  @ (if showHeader td \<noteq> Some False then
                       shell_header_open @ escapeHtml (name td) @ shell_name_close
                       @ (if truthy (description td) then
                            shell_description_open @ escapeHtml (description td)
                            @ shell_description_close
                          else [])
                       @ shell_header_close
                     else [])
                  @ shell_content_comment)
                 @ html
                 @ (shell_watermark
                    @ (if truthy (hostedJs td)
                         then js_of_string ''<script>'' @ interpolate (hostedJs td)
                              @ js_of_string ''</script>''
                       else [])
                    @ shell_before_host_script @ host_script_text @ shell_doc_close)"
    unfolding toolHtml_composition by (simp add: interpolate_def)
  then show "sublist html (toolHtml td)" unfolding sublist_def by blast
next
  fix css assume c: "hostedCss td = Some css"
  show "sublist css (toolHtml td)"
  proof (cases "css = []")
    case True
    then show ?thesis by simp
  next
    case False
    have "toolHtml td
            = (shell_head_open @ escapeHtml (name td) @ shell_base_styles)
              @ css
              @ (shell_body_open
                 @ (if showHeader td \<noteq> Some False then
                      shell_header_open @ escapeHtml (name td) @ shell_name_close
                      @ (if truthy (description td) then
                           shell_description_open @ escapeHtml (description td)
                           @ shell_description_close
                         else [])
                      @ shell_header_close
                    else [])
                 @ shell_content_comment @ interpolate (hostedHtml td) @ shell_watermark
                 @ (if truthy (hostedJs td)
                      then js_of_string ''<script>'' @ interpolate (hostedJs td)
                           @ js_of_string ''</script>''
                    else [])
                 @ shell_before_host_script @ host_script_text @ shell_doc_close)"
      unfolding toolHtml_composition using c False by (simp add: or_else_def)
    then show ?thesis unfolding sublist_def by blast
  qed
next
  fix js assume j: "hostedJs td = Some js \<and> js \<noteq> []"
  have "toolHtml td
          = (shell_head_open @ escapeHtml (name td) @ shell_base_styles
             @ or_else (hostedCss td) [] @ shell_body_open
             @ (if showHeader td \<noteq> Some False then
                  shell_header_open @ escapeHtml (name td) @ shell_name_close
                  @ (if truthy (description td) then
                       shell_description_open @ escapeHtml (description td)
                       @ shell_description_close
                     else [])
                  @ shell_header_close
                else [])
             @ shell_content_comment @ interpolate (hostedHtml td) @ shell_watermark)
            @ (js_of_string ''<script>'' @ js @ js_of_string ''</script>'')
            @ (shell_before_host_script @ host_script_text @ shell_doc_close)"
    unfolding toolHtml_composition using j by (simp add: truthy_def interpolate_def)
  then show "sublist (js_of_string ''<script>'' @ js @ js_of_string ''</script>'') (toolHtml td)"
    unfolding sublist_def by blast
qed

theorem header_text_escaped_payload_raw_witness:
  \<open>sublist (js_of_string ''<title>&lt;img src=x onerror=steal()&gt;</title>'')
     (toolHtml tool_example)
   \<and> sublist (js_of_string ''<h1 class="tool-title">&lt;img src=x onerror=steal()&gt;</h1>'')
       (toolHtml tool_example)
   \<and> sublist (js_of_string
                ''<p class="tool-description">Fish &amp; &lt;b&gt;chips&lt;/b&gt;</p>'')
       (toolHtml tool_example)
   \<and> text_of_markup (js_of_string ''&lt;img src=x onerror=steal()&gt;'')
         = js_of_string ''<img src=x onerror=steal()>''
   \<and> sublist (js_of_string ''<p id="out"></p>'') (toolHtml tool_example)
   \<and> sublist (js_of_string ''<style>p { color: red }</style>'') (toolHtml tool_example)
   \<and> sublist (js_of_string
                ''<script>parent.document.title; top.location.href; alert(1)</script>'')
       (toolHtml tool_example)\<close>
proof -
  have n: "escapeHtml (name tool_example) = js_of_string ''&lt;img src=x onerror=steal()&gt;''"
    by (simp add: tool_example_def escapeHtml_def truthy_def interpolate_def escape_unit_def
        js_of_string_def)
  have d: "escapeHtml (description tool_example) = js_of_string ''Fish &amp; &lt;b&gt;chips&lt;/b&gt;''"
    by (simp add: tool_example_def escapeHtml_def truthy_def interpolate_def escape_unit_def
        js_of_string_def)
  have f: "hostedHtml tool_example = Some (js_of_string ''<p id=\"out\"></p>'')"
    "hostedCss tool_example = Some (js_of_string ''<style>p { color: red }</style>'')"
    "hostedJs tool_example = Some (js_of_string ''parent.document.title; top.location.href; alert(1)'')
       \<and> js_of_string ''parent.document.title; top.location.href; alert(1)'' \<noteq> []"
    "name tool_example = Some (js_of_string ''<img src=x onerror=steal()>'')"
    "showHeader tool_example \<noteq> Some False"
    "showHeader tool_example \<noteq> Some False \<and> truthy (description tool_example)"
    by (simp_all add: tool_example_def js_of_string_def truthy_def)
  note t = header_text_escaped_payload_raw [of tool_example]
  have "sublist (js_of_string ''<title>'' @ escapeHtml (name tool_example)
                   @ js_of_string ''</title>'') (toolHtml tool_example)"
    using t by blast
  moreover have "sublist (js_of_string ''<h1 class=\"tool-title\">'' @ escapeHtml (name tool_example)
                   @ js_of_string ''</h1>'') (toolHtml tool_example)"
    using t f(5) by blast
  moreover have "sublist (js_of_string ''<p class=\"tool-description\">''
                   @ escapeHtml (description tool_example) @ js_of_string ''</p>'')
                   (toolHtml tool_example)"
    using t f(6) by blast
  moreover have "text_of_markup (escapeHtml (name tool_example))
                   = js_of_string ''<img src=x onerror=steal()>''"
    using t f(4) by simp
  moreover have "sublist (js_of_string ''<p id=\"out\"></p>'') (toolHtml tool_example)"
    using t f(1) by blast
  moreover have "sublist (js_of_string ''<style>p { color: red }</style>'') (toolHtml tool_example)"
    using t f(2) by blast
  moreover have "sublist (js_of_string ''<script>'' @ js_of_string ''parent.document.title; top.location.href; alert(1)''
                    @ js_of_string ''</script>'') (toolHtml tool_example)"
    using t f(3) by blast
  ultimately show ?thesis unfolding n d by (simp add: js_of_string_def)
qed

subsection \<open>Loading a tool\<close>


lemma showLoading_written [simp]:
  "map_option written (iframe (showLoading b v)) = map_option written (iframe v)"
  by (cases "iframe v") (simp_all add: showLoading_def split: option.splits)

lemma showLoading_iframe_None [simp]: "iframe (showLoading b v) = None \<longleftrightarrow> iframe v = None"
  by (cases "iframe v") (simp_all add: showLoading_def split: option.splits)

lemma showLoading_page [simp]:
  "rtdb_log (showLoading b v) = rtdb_log v" "local_storage (showLoading b v) = local_storage v"
  "console (showLoading b v) = console v" "toolId (showLoading b v) = toolId v"
  "toolData (showLoading b v) = toolData v" "clock (showLoading b v) = clock v"
  by (simp_all add: showLoading_def split: option.splits)


lemma showError_page [simp]:
  "rtdb_log (showError m v) = rtdb_log v" "local_storage (showError m v) = local_storage v"
  "console (showError m v) = console v" "iframe (showError m v) = iframe v"
  "toolData (showError m v) = toolData v"
  "viewer_content (showError m v) = None \<longleftrightarrow> viewer_content v = None"
  by (simp_all add: showError_def)

lemma catch_load_error_fields [simp]:
  "rtdb_log (catch_load_error e v) = rtdb_log v"
  "local_storage (catch_load_error e v) = local_storage v"
  "console (catch_load_error e v)
     = console v @ [js_of_string ''Error loading tool: '' @ error_message e]"
  "iframe (catch_load_error e v) = iframe v"
  "toolData (catch_load_error e v) = toolData v"
  "viewer_content (catch_load_error e v) = None \<longleftrightarrow> viewer_content v = None"
  by (simp_all add: catch_load_error_def)

lemma setupViewer_fields [simp]:
  "map_option written (iframe (setupViewer v)) = Some None"
  "map_option events_attached (iframe (setupViewer v)) = Some False"
  "map_option sandbox (iframe (setupViewer v))
     = Some (js_of_string ''allow-scripts allow-same-origin allow-forms allow-modals allow-popups'')"
  "rtdb_log (setupViewer v) = rtdb_log v" "local_storage (setupViewer v) = local_storage v"
  "console (setupViewer v) = console v" "toolId (setupViewer v) = toolId v"
  "viewer_content (setupViewer v) = None \<longleftrightarrow> viewer_content v = None"
  by (simp_all add: setupViewer_def Let_def)





subsection \<open>The host's closing script\<close>





subsection \<open>Failed resolutions\<close>

lemma check_tool_kinds:
  "check_tool (Inr None) = Inl NotFound"
  "\<not> enabled td \<Longrightarrow> check_tool (Inr (Some td)) = Inl Disabled"
  "enabled td \<Longrightarrow> tool_type td \<noteq> js_of_string ''hosted''
     \<Longrightarrow> check_tool (Inr (Some td)) = Inl TypeMismatch"
  "enabled td \<Longrightarrow> tool_type td = js_of_string ''hosted'' \<Longrightarrow> \<not> truthy (hostedHtml td)
     \<Longrightarrow> check_tool (Inr (Some td)) = Inl PayloadMissing"
  by (simp_all add: check_tool_def)

lemma error_messages_distinct:
  "distinct (map error_message [NotFound, Disabled, TypeMismatch, PayloadMissing])"
  by (simp add: js_of_string_def)

lemma loadTool_failure:
  assumes "check_tool (db (toolId v)) = Inl e"
  shows "map_option written (iframe (loadTool db v)) = map_option written (iframe v)"
    and "map_option events_attached (iframe (loadTool db v)) = map_option events_attached (iframe v)"
    and "map_option sandbox (iframe (loadTool db v)) = map_option sandbox (iframe v)"
    and "rtdb_log (loadTool db v) = rtdb_log v"
    and "local_storage (loadTool db v) = local_storage v"
    and "console (loadTool db v)
           = console v @ [js_of_string ''Error loading tool: '' @ error_message e]"
proof -
  define v2 where "v2 = (case db (toolId v) of Inr (Some td) \<Rightarrow> (showLoading True v)\<lparr>toolData := Some td\<rparr>
                         | _ \<Rightarrow> showLoading True v)"
  define v3 where "v3 = catch_load_error e v2"
  have l: "loadTool db v = showLoading False v3"
    using assms by (simp add: loadTool_def Let_def v3_def v2_def)
  have f: "iframe v2 = iframe (showLoading True v)" "rtdb_log v2 = rtdb_log v"
    "local_storage v2 = local_storage v" "console v2 = console v"
    by (simp_all add: v2_def split: sum.splits option.splits)
  have g: "iframe v3 = iframe (showLoading True v)"
    by (simp add: v3_def catch_load_error_def f)
  show "map_option written (iframe (loadTool db v)) = map_option written (iframe v)"
    by (simp add: l g)
  show "map_option events_attached (iframe (loadTool db v)) = map_option events_attached (iframe v)"
    by (cases "iframe v") (simp_all add: l showLoading_def g split: option.splits)
  show "map_option sandbox (iframe (loadTool db v)) = map_option sandbox (iframe v)"
    by (cases "iframe v") (simp_all add: l showLoading_def g split: option.splits)
  show "rtdb_log (loadTool db v) = rtdb_log v" by (simp add: l v3_def catch_load_error_def f)
  show "local_storage (loadTool db v) = local_storage v"
    by (simp add: l v3_def catch_load_error_def f)
  show "console (loadTool db v) = console v @ [js_of_string ''Error loading tool: '' @ error_message e]"
    by (simp add: l v3_def catch_load_error_def f)
qed

lemma viewer_init_failure:
  assumes "truthy url_id" and "check_tool (db url_id) = Inl e"
  shows "map_option written (iframe (viewer_init url_id db v)) = Some None"
    and "map_option events_attached (iframe (viewer_init url_id db v)) = Some False"
    and "map_option sandbox (iframe (viewer_init url_id db v))
           = Some (js_of_string ''allow-scripts allow-same-origin allow-forms allow-modals allow-popups'')"
    and "rtdb_log (viewer_init url_id db v) = rtdb_log v"
    and "local_storage (viewer_init url_id db v) = local_storage v"
    and "console (viewer_init url_id db v)
           = console v @ [js_of_string ''Error loading tool: '' @ error_message e]"
proof -
  define v0 where "v0 = setupViewer (v\<lparr>toolId := url_id\<rparr>)"
  have i: "viewer_init url_id db v = loadTool db v0"
    using assms(1) by (simp add: viewer_init_def Let_def v0_def)
  have c: "check_tool (db (toolId v0)) = Inl e"
    using assms(2) by (simp add: v0_def)
  note f = loadTool_failure [of db v0 e, OF c]
  show "map_option written (iframe (viewer_init url_id db v)) = Some None"
    using f(1) setupViewer_fields(1) [of "v\<lparr>toolId := url_id\<rparr>"]
    by (simp only: i v0_def)
  show "map_option events_attached (iframe (viewer_init url_id db v)) = Some False"
    using f(2) setupViewer_fields(2) [of "v\<lparr>toolId := url_id\<rparr>"]
    by (simp only: i v0_def)
  show "map_option sandbox (iframe (viewer_init url_id db v))
           = Some (js_of_string ''allow-scripts allow-same-origin allow-forms allow-modals allow-popups'')"
    using f(3) setupViewer_fields(3) [of "v\<lparr>toolId := url_id\<rparr>"]
    by (simp only: i v0_def)
  show "rtdb_log (viewer_init url_id db v) = rtdb_log v" using f(4) by (simp add: i v0_def)
  show "local_storage (viewer_init url_id db v) = local_storage v" using f(5) by (simp add: i v0_def)
  show "console (viewer_init url_id db v)
           = console v @ [js_of_string ''Error loading tool: '' @ error_message e]"
    using f(6) by (simp add: i v0_def)
qed


text \<open>
  C2, as the code has it: a resolution that fails reports the message of its kind (not
  found, disabled, not hosted, no hosted markup; the four messages differ), writes no
  document into the frame, attaches no listener to it and counts no view. The sandboxed
  frame itself is there all the same: \<open>init\<close> has \<open>setupViewer\<close> create it before
  \<open>loadTool\<close> reads the definition.
\<close>

theorem failed_resolution_leaves_frame_empty:
  assumes "truthy url_id" and "check_tool (db url_id) = Inl e"
  shows "map_option written (iframe (viewer_init url_id db v)) = Some None
       \<and> map_option events_attached (iframe (viewer_init url_id db v)) = Some False
       \<and> rtdb_log (viewer_init url_id db v) = rtdb_log v
       \<and> local_storage (viewer_init url_id db v) = local_storage v
       \<and> console (viewer_init url_id db v)
             = console v @ [js_of_string ''Error loading tool: '' @ error_message e]
       \<and> (db url_id = Inr None \<longrightarrow> e = NotFound)
       \<and> (\<forall>td. db url_id = Inr (Some td) \<and> \<not> enabled td \<longrightarrow> e = Disabled)
       \<and> (\<forall>td. db url_id = Inr (Some td) \<and> enabled td
               \<and> tool_type td \<noteq> js_of_string ''hosted'' \<longrightarrow> e = TypeMismatch)
       \<and> (\<forall>td. db url_id = Inr (Some td) \<and> enabled td
               \<and> tool_type td = js_of_string ''hosted'' \<and> \<not> truthy (hostedHtml td)
               \<longrightarrow> e = PayloadMissing)
       \<and> distinct (map error_message [NotFound, Disabled, TypeMismatch, PayloadMissing])"
proof -
  have k: "db url_id = Inr None \<longrightarrow> e = NotFound"
    "\<forall>td. db url_id = Inr (Some td) \<and> \<not> enabled td \<longrightarrow> e = Disabled"
    "\<forall>td. db url_id = Inr (Some td) \<and> enabled td
        \<and> tool_type td \<noteq> js_of_string ''hosted'' \<longrightarrow> e = TypeMismatch"
    "\<forall>td. db url_id = Inr (Some td) \<and> enabled td
        \<and> tool_type td = js_of_string ''hosted'' \<and> \<not> truthy (hostedHtml td)
        \<longrightarrow> e = PayloadMissing"
    using assms(2) check_tool_kinds by auto
  show ?thesis
    using viewer_init_failure [of url_id db e v] assms k error_messages_distinct by blast
qed

lemma check_tool_examples:
  "check_tool (db_example (Some (js_of_string ''t2''))) = Inl Disabled"
  "check_tool (db_example (Some (js_of_string ''t3''))) = Inl TypeMismatch"
  "check_tool (db_example (Some (js_of_string ''t4''))) = Inl PayloadMissing"
  "check_tool (db_example (Some (js_of_string ''t5''))) = Inl NotFound"
  "truthy (Some (js_of_string ''t2''))" "truthy (Some (js_of_string ''t3''))"
  "truthy (Some (js_of_string ''t4''))" "truthy (Some (js_of_string ''t5''))"
  by (simp_all add: check_tool_def db_example_def tool_example_def truthy_def js_of_string_def)

theorem failed_resolution_leaves_frame_empty_witness:
  "map_option written (iframe (viewer_init (Some (js_of_string ''t2'')) db_example viewer_example)) = Some None
   \<and> rtdb_log (viewer_init (Some (js_of_string ''t2'')) db_example viewer_example) = []
   \<and> console (viewer_init (Some (js_of_string ''t2'')) db_example viewer_example)
        = [js_of_string ''Error loading tool: This tool is currently disabled'']
   \<and> console (viewer_init (Some (js_of_string ''t3'')) db_example viewer_example)
        = [js_of_string ''Error loading tool: This tool cannot be viewed in the viewer'']
   \<and> console (viewer_init (Some (js_of_string ''t4'')) db_example viewer_example)
        = [js_of_string ''Error loading tool: No HTML content available for this tool'']
   \<and> console (viewer_init (Some (js_of_string ''t5'')) db_example viewer_example)
        = [js_of_string ''Error loading tool: Tool not found'']"
  using failed_resolution_leaves_frame_empty
          [of "Some (js_of_string ''t2'')" db_example Disabled viewer_example]
        failed_resolution_leaves_frame_empty
          [of "Some (js_of_string ''t3'')" db_example TypeMismatch viewer_example]
        failed_resolution_leaves_frame_empty
          [of "Some (js_of_string ''t4'')" db_example PayloadMissing viewer_example]
        failed_resolution_leaves_frame_empty
          [of "Some (js_of_string ''t5'')" db_example NotFound viewer_example]
        check_tool_examples
  by (simp add: viewer_example_def js_of_string_def)

text \<open>
  The disabled tool of the example store: its resolution fails with \<open>Disabled\<close>, and the
  viewer holds a frame with the sandbox attribute set.
\<close>

theorem disabled_tool_frame_constructed:
  "check_tool (db_example (Some (js_of_string ''t2''))) = Inl Disabled
   \<and> iframe (viewer_init (Some (js_of_string ''t2'')) db_example viewer_example) \<noteq> None
   \<and> map_option sandbox (iframe (viewer_init (Some (js_of_string ''t2'')) db_example viewer_example))
        = Some (js_of_string ''allow-scripts allow-same-origin allow-forms allow-modals allow-popups'')"
  using viewer_init_failure(1,3) [of "Some (js_of_string ''t2'')" db_example Disabled viewer_example]
    check_tool_examples(1,5)
  by auto

section \<open>Session tracker\<close>

subsection \<open>What each method changes\<close>

lemma issued_subset: "set (issued rej xs) \<subseteq> set xs"
  by (induction xs) auto

lemma issued_first: "issued rej (x # xs) = x # tl (issued rej (x # xs))"
  by simp

lemma await_all_log [simp]:
  "rtdb_log (await_all l xs w) = rtdb_log w @ issued (rtdb_rejects w) xs"
  by (simp add: await_all_def)

lemma await_all_page [simp]:
  "clock (await_all l xs w) = clock w"
  "rtdb_rejects (await_all l xs w) = rtdb_rejects w"
  "iso_date (await_all l xs w) = iso_date w"
  "local_storage (await_all l xs w) = local_storage w"
  by (simp_all add: await_all_def)

lemma await_all_tracker [simp]:
  fixes w :: tracker
  shows "browser (await_all l xs w) = browser w"
    and "sessionId (await_all l xs w) = sessionId w"
    and "userId (await_all l xs w) = userId w"
    and "sessionStart (await_all l xs w) = sessionStart w"
    and "pageViews (await_all l xs w) = pageViews w"
    and "lastActivity (await_all l xs w) = lastActivity w"
    and "activityTimeout (await_all l xs w) = activityTimeout w"
    and "heartbeatInterval (await_all l xs w) = heartbeatInterval w"
  by (simp_all add: await_all_def)

lemma paths_await_all [simp]:
  fixes w :: tracker
  shows "session_path (await_all l xs w) = session_path w"
    and "last_activity_path (await_all l xs w) = last_activity_path w"
    and "heartbeat_path (await_all l xs w) = heartbeat_path w"
  by (simp_all add: session_path_def last_activity_path_def heartbeat_path_def)

lemma handle_fixed [simp]:
  "sessionId (handle ev w) = sessionId w"
  "sessionStart (handle ev w) = sessionStart w"
  "heartbeatInterval (handle ev w) = heartbeatInterval w"
  "clock (handle ev w) = clock w"
  "rtdb_rejects (handle ev w) = rtdb_rejects w"
  by (cases ev; simp add: trackPageView_def trackToolInteraction_def endSession_def
      updateLastActivity_def trackEvent_def Let_def)+

lemma fire_heartbeat_fixed [simp]:
  "sessionId (fire_heartbeat w) = sessionId w"
  "sessionStart (fire_heartbeat w) = sessionStart w"
  "pageViews (fire_heartbeat w) = pageViews w"
  "lastActivity (fire_heartbeat w) = lastActivity w"
  "activityTimeout (fire_heartbeat w) = activityTimeout w"
  "rtdb_rejects (fire_heartbeat w) = rtdb_rejects w"
  by (simp_all add: fire_heartbeat_def Let_def split: option.splits)

lemma fire_timeout_fixed [simp]:
  "sessionId (fire_timeout w) = sessionId w"
  "sessionStart (fire_timeout w) = sessionStart w"
  "pageViews (fire_timeout w) = pageViews w"
  "lastActivity (fire_timeout w) = lastActivity w"
  "heartbeatInterval (fire_timeout w) = heartbeatInterval w"
  "rtdb_rejects (fire_timeout w) = rtdb_rejects w"
  by (simp_all add: fire_timeout_def updateLastActivity_def split: option.splits)

lemma advance_fixed [simp]:
  "sessionId (advance t w) = sessionId w"
  "sessionStart (advance t w) = sessionStart w"
  "pageViews (advance t w) = pageViews w"
  "lastActivity (advance t w) = lastActivity w"
  "rtdb_rejects (advance t w) = rtdb_rejects w"
  by (induction t w rule: advance.induct; subst advance.simps; simp)+

lemma run_fixed [simp]:
  "sessionId (run evs w) = sessionId w"
  "sessionStart (run evs w) = sessionStart w"
  "rtdb_rejects (run evs w) = rtdb_rejects w"
  by (induction evs arbitrary: w; auto)+

lemma paths_fixed [simp]:
  "session_path (handle ev w) = session_path w"
  "session_path (advance t w) = session_path w"
  "session_path (run evs w) = session_path w"
  "heartbeat_path (handle ev w) = heartbeat_path w"
  "heartbeat_path (advance t w) = heartbeat_path w"
  "heartbeat_path (run evs w) = heartbeat_path w"
  "heartbeat_path (fire_heartbeat w) = heartbeat_path w"
  "heartbeat_path (fire_timeout w) = heartbeat_path w"
  "last_activity_path (handle ev w) = last_activity_path w"
  "last_activity_path (advance t w) = last_activity_path w"
  "last_activity_path (run evs w) = last_activity_path w"
  "last_activity_path (fire_heartbeat w) = last_activity_path w"
  "last_activity_path (fire_timeout w) = last_activity_path w"
  by (simp_all add: session_path_def heartbeat_path_def last_activity_path_def)

lemma run_append: "run (xs @ ys) w = run ys (run xs w)"
  by (induction xs arbitrary: w) auto

subsection \<open>The page-view counter\<close>

lemma pageViews_handle:
  "pageViews (handle ev w) = pageViews w + (if ev = PageView then 1 else 0)"
  by (cases ev)
    (simp_all add: trackPageView_def trackToolInteraction_def endSession_def
      updateLastActivity_def trackEvent_def Let_def)

lemma pageViews_run:
  "pageViews (run evs w) = pageViews w + int (length (filter (\<lambda>te. snd te = PageView) evs))"
proof (induction evs arbitrary: w)
  case Nil
  show ?case by simp
next
  case (Cons te evs)
  obtain t ev where te: "te = (t, ev)" by (cases te)
  show ?case
    using Cons.IH [of "handle ev (advance t w)"] te
    by (simp add: pageViews_handle del: handle.simps)
qed

lemma generateSessionId_fields:
  "pageViews (snd (generateSessionId w)) = pageViews w"
  "clock (snd (generateSessionId w)) = clock w"
  "rtdb_log (snd (generateSessionId w)) = rtdb_log w"
  "rtdb_rejects (snd (generateSessionId w)) = rtdb_rejects w"
  by (simp_all add: generateSessionId_def Let_def)

lemma new_tracker_fields [simp]:
  "pageViews (new_tracker e p) = 0" "clock (new_tracker e p) = clock p"
  "rtdb_log (new_tracker e p) = rtdb_log p" "rtdb_rejects (new_tracker e p) = rtdb_rejects p"
  by (simp_all add: new_tracker_def page.defs tracker.defs)

lemma tracker_init_pageViews: "pageViews (tracker_init stringify e p) = 1"
  by (simp add: tracker_init_def Let_def split_beta setupHeartbeat_def trackPageView_def
      startSession_def generateSessionId_fields)

lemma endSession_log:
  "rtdb_log (handle BeforeUnload w)
     = rtdb_log w
       @ RUpdate (session_path w)
           [(js_of_string ''end_time'', VNum (clock w)),
            (js_of_string ''duration'', VNum (clock w - sessionStart w)),
            (js_of_string ''status'', VStr (js_of_string ''ended'')),
            (js_of_string ''page_views'', VNum (pageViews w))]
         # tl (issued (rtdb_rejects w) (endSession_calls w))"
  by (simp add: endSession_def endSession_calls_def Let_def)

text \<open>
  C8: the counter is 1 after construction (\<open>init\<close> makes the first \<open>trackPageView\<close> call)
  and goes up by one with every further call, so at any moment it is the number of
  \<open>trackPageView\<close> calls made so far; no event and no timer lowers it; and the update that
  \<open>endSession\<close> writes to the session record carries the count at that moment.
\<close>

theorem page_view_counter:
  assumes "w0 = tracker_init stringify e p"
    and "n = 1 + int (length (filter (\<lambda>te. snd te = PageView) evs))"
  shows "pageViews (run evs w0) = n
       \<and> (\<forall>t' ev w'. pageViews w' \<le> pageViews (handle ev (advance t' w')))
       \<and> (\<exists>rest end_time duration.
             rtdb_log (run (evs @ [(t, BeforeUnload)]) w0)
               = rtdb_log (advance t (run evs w0))
                 @ RUpdate (session_path w0)
                     [(js_of_string ''end_time'', VNum end_time),
                      (js_of_string ''duration'', VNum duration),
                      (js_of_string ''status'', VStr (js_of_string ''ended'')),
                      (js_of_string ''page_views'', VNum n)]
                   # rest)"
proof (intro conjI allI)
  show c: "pageViews (run evs w0) = n"
    using assms by (simp add: pageViews_run tracker_init_pageViews)
  show "pageViews w' \<le> pageViews (handle ev (advance t' w'))" for t' ev w'
    by (simp add: pageViews_handle)
  have "rtdb_log (run (evs @ [(t, BeforeUnload)]) w0)
          = rtdb_log (handle BeforeUnload (advance t (run evs w0)))"
    by (simp add: run_append)
  then show "\<exists>rest end_time duration.
             rtdb_log (run (evs @ [(t, BeforeUnload)]) w0)
               = rtdb_log (advance t (run evs w0))
                 @ RUpdate (session_path w0)
                     [(js_of_string ''end_time'', VNum end_time),
                      (js_of_string ''duration'', VNum duration),
                      (js_of_string ''status'', VStr (js_of_string ''ended'')),
                      (js_of_string ''page_views'', VNum n)]
                   # rest"
    using c endSession_log [of "advance t (run evs w0)"] by simp
qed

theorem page_view_counter_witness:
  "pageViews (run [(1700000000005, PageView), (1700000000010, UserInput),
                   (1700000000020, PageView)] tracker_example) = 3
   \<and> pageViews tracker_example \<le> pageViews (handle PageView (advance 1700000040000 tracker_example))"
proof -
  have a: "tracker_example
             = tracker_init stringify_example (env_example ''https://a.example/'' ''0.k3j9x1m2p4q'')
                 page_example"
    by (simp add: tracker_example_def)
  have b: "(3::int) = 1 + int (length (filter (\<lambda>te. snd te = PageView)
             [(1700000000005::int, PageView), (1700000000010, UserInput),
              (1700000000020, PageView)]))"
    by simp
  note t = page_view_counter [OF a b, of 1700000000030]
  have "pageViews (run [(1700000000005, PageView), (1700000000010, UserInput),
                        (1700000000020, PageView)] tracker_example) = 3"
    using t by (rule conjunct1)
  moreover have "\<forall>t' ev w'. pageViews w' \<le> pageViews (handle ev (advance t' w'))"
    using t by (rule conjunct1 [OF conjunct2])
  ultimately show ?thesis by blast
qed

subsection \<open>The status written to the session record\<close>

lemma statuses_written_append [simp]:
  "statuses_written p (xs @ ys) = statuses_written p xs @ statuses_written p ys"
  by (simp add: statuses_written_def)

lemma statuses_written_Cons [simp]:
  "statuses_written p (x # xs) = status_written p x @ statuses_written p xs"
  by (simp add: statuses_written_def)

lemma statuses_written_Nil [simp]: "statuses_written p [] = []"
  by (simp add: statuses_written_def)

lemma no_status_issued:
  "\<forall>x \<in> set xs. status_written p x = [] \<Longrightarrow> statuses_written p (issued rej xs) = []"
  using issued_subset [of rej xs] by (auto simp: statuses_written_def)

lemma trackPageView_status:
  "statuses_written p (rtdb_log (trackPageView w)) = statuses_written p (rtdb_log w)"
  by (simp add: trackPageView_def Let_def js_of_string_def)

lemma trackToolInteraction_status:
  "statuses_written p (rtdb_log (trackToolInteraction tid a m w)) = statuses_written p (rtdb_log w)"
  by (simp add: trackToolInteraction_def Let_def)

lemma visibility_status:
  "statuses_written p (rtdb_log (handle (VisibilityChange hidden) w)) = statuses_written p (rtdb_log w)"
  by (simp add: trackEvent_def updateLastActivity_def)

lemma endSession_status:
  "statuses_written (session_path w) (rtdb_log (handle BeforeUnload w))
     = statuses_written (session_path w) (rtdb_log w) @ [VStr (js_of_string ''ended'')]"
proof -
  have "statuses_written (session_path w) (tl (issued (rtdb_rejects w) (endSession_calls w))) = []"
    by (simp add: endSession_calls_def Let_def)
  then show ?thesis
    unfolding endSession_log by (simp add: js_of_string_def)
qed

lemma handle_status:
  "statuses_written (session_path w) (rtdb_log (handle ev w))
     = statuses_written (session_path w) (rtdb_log w)
       @ (if ev = BeforeUnload then [VStr (js_of_string ''ended'')] else [])"
proof (cases ev)
  case PageView
  then show ?thesis by (simp add: trackPageView_status)
next
  case (ToolInteraction tid a m)
  then show ?thesis by (simp add: trackToolInteraction_status)
next
  case UserInput
  then show ?thesis by simp
next
  case (VisibilityChange hidden)
  then show ?thesis using visibility_status [of "session_path w" hidden w] by simp
next
  case BeforeUnload
  then show ?thesis using endSession_status [of w] by simp
qed

lemma fire_heartbeat_log:
  "rtdb_log (fire_heartbeat w)
     = rtdb_log w @ (case heartbeatInterval w of None \<Rightarrow> []
                     | Some h \<Rightarrow> [RSetValue (heartbeat_path w) (VNum (max (clock w) h))])"
  by (simp add: fire_heartbeat_def Let_def heartbeat_path_def split: option.splits)

lemma fire_timeout_log:
  "rtdb_log (fire_timeout w)
     = rtdb_log w @ (case activityTimeout w of None \<Rightarrow> []
                     | Some a \<Rightarrow> [RSetValue (last_activity_path w) (VNum (lastActivity w))])"
  by (simp add: fire_timeout_def updateLastActivity_def last_activity_path_def split: option.splits)

lemma advance_status:
  "statuses_written p (rtdb_log (advance t w)) = statuses_written p (rtdb_log w)"
proof (induction t w rule: advance.induct)
  case (1 t w)
  show ?case
    using 1
    by (subst advance.simps)
      (simp add: fire_heartbeat_log fire_timeout_log split: option.splits)
qed

lemma run_status:
  "statuses_written (session_path w) (rtdb_log (run evs w))
     = statuses_written (session_path w) (rtdb_log w)
       @ replicate (length (filter (\<lambda>te. snd te = BeforeUnload) evs)) (VStr (js_of_string ''ended''))"
proof (induction evs arbitrary: w)
  case Nil
  show ?case by simp
next
  case (Cons te evs)
  obtain t ev where te: "te = (t, ev)" by (cases te)
  define w1 where "w1 = handle ev (advance t w)"
  have p: "session_path w1 = session_path w" by (simp add: w1_def)
  have "statuses_written (session_path w) (rtdb_log w1)
          = statuses_written (session_path w) (rtdb_log w)
            @ (if ev = BeforeUnload then [VStr (js_of_string ''ended'')] else [])"
    using handle_status [of "advance t w" ev] by (simp add: w1_def advance_status)
  then show ?case
    using Cons.IH [of w1] te p by (simp add: w1_def [symmetric] replicate_append_same del: handle.simps)
qed

lemma tracker_init_status:
  assumes "w0 = tracker_init stringify e p"
  shows "statuses_written (session_path w0) (rtdb_log w0)
           = statuses_written (session_path w0) (rtdb_log p) @ [VStr (js_of_string ''active'')]"
proof -
  obtain sid w1 where g: "generateSessionId (new_tracker e p) = (sid, w1)"
    by (cases "generateSessionId (new_tracker e p)")
  define w2 where "w2 = w1\<lparr> sessionId := sid, userId := js_of_string (init_userId stringify e),
                             sessionStart := clock w1, lastActivity := clock w1 \<rparr>"
  have l1: "rtdb_log w2 = rtdb_log p"
    using generateSessionId_fields(3) [of "new_tracker e p"] g by (simp add: w2_def)
  have sp: "session_path w0 = session_path w2"
    using assms g
    by (simp add: tracker_init_def Let_def w2_def session_path_def setupHeartbeat_def
        trackPageView_def startSession_def)
  have l0: "rtdb_log w0 = rtdb_log (trackPageView (startSession w2))"
    using assms g by (simp add: tracker_init_def Let_def w2_def setupHeartbeat_def)
  have s: "statuses_written (session_path w2) (rtdb_log (startSession w2))
         = statuses_written (session_path w2) (rtdb_log w2) @ [VStr (js_of_string ''active'')]"
    by (simp add: startSession_def Let_def js_of_string_def)
  show ?thesis
    unfolding sp l0 trackPageView_status s l1 ..
qed

text \<open>
  C3, as the code has it: the status written to the session record goes from active to
  ended and never back (\<open>startSession\<close>, called once by \<open>init\<close>, writes "active"; every
  \<open>endSession\<close> writes "ended"; nothing else writes a status). The tracker keeps no status
  of its own and no method checks one: in every state, also after \<open>endSession\<close>, a call of
  \<open>endSession\<close>, \<open>trackPageView\<close>, \<open>trackToolInteraction\<close> or \<open>updateLastActivity\<close> issues
  its database calls.
\<close>

theorem status_active_then_ended_without_guard:
  assumes "w0 = tracker_init stringify e p"
  shows "statuses_written (session_path w0) (rtdb_log (run evs w0))
           = statuses_written (session_path w0) (rtdb_log p)
             @ VStr (js_of_string ''active'')
             # replicate (length (filter (\<lambda>te. snd te = BeforeUnload) evs))
                 (VStr (js_of_string ''ended''))
       \<and> (\<forall>w. \<exists>x xs. rtdb_log (endSession w) = rtdb_log w @ x # xs)
       \<and> (\<forall>w. \<exists>x xs. rtdb_log (trackPageView w) = rtdb_log w @ x # xs)
       \<and> (\<forall>w tid a m. \<exists>x xs. rtdb_log (trackToolInteraction tid a m w) = rtdb_log w @ x # xs)
       \<and> (\<forall>w. \<exists>x. rtdb_log (updateLastActivity w) = rtdb_log w @ [x])"
proof (intro conjI allI)
  show "statuses_written (session_path w0) (rtdb_log (run evs w0))
           = statuses_written (session_path w0) (rtdb_log p)
             @ VStr (js_of_string ''active'')
             # replicate (length (filter (\<lambda>te. snd te = BeforeUnload) evs))
                 (VStr (js_of_string ''ended''))"
    using run_status [of w0 evs] tracker_init_status [OF assms] by simp
  show "\<exists>x xs. rtdb_log (endSession w) = rtdb_log w @ x # xs" for w
    using endSession_log [of w] by auto
  show "\<exists>x xs. rtdb_log (trackPageView w) = rtdb_log w @ x # xs" for w
    by (simp add: trackPageView_def Let_def)
  show "\<exists>x xs. rtdb_log (trackToolInteraction tid a m w) = rtdb_log w @ x # xs" for w tid a m
    by (simp add: trackToolInteraction_def Let_def)
  show "\<exists>x. rtdb_log (updateLastActivity w) = rtdb_log w @ [x]" for w
    by (simp add: updateLastActivity_def)
qed

theorem status_active_then_ended_without_guard_witness:
  "statuses_written (session_path tracker_example)
     (rtdb_log (run [(1700000000005, PageView), (1700000001000, BeforeUnload),
                     (1700000002000, PageView), (1700000003000, BeforeUnload)] tracker_example))
     = [VStr (js_of_string ''active''), VStr (js_of_string ''ended''), VStr (js_of_string ''ended'')]"
  using status_active_then_ended_without_guard
    [of tracker_example stringify_example "env_example ''https://a.example/'' ''0.k3j9x1m2p4q''"
      page_example
      "[(1700000000005, PageView), (1700000001000, BeforeUnload),
        (1700000002000, PageView), (1700000003000, BeforeUnload)]"]
  by (simp add: tracker_example_def page_example_def)

text \<open>
  The example tracker after its \<open>endSession\<close>: a second \<open>beforeunload\<close>, a
  \<open>trackPageView\<close>, a tool interaction and a change to visible all add database calls to
  the log.
\<close>

theorem ended_session_still_writes:
  "rtdb_log (handle BeforeUnload (run [(1700000001000, BeforeUnload)] tracker_example))
     \<noteq> rtdb_log (run [(1700000001000, BeforeUnload)] tracker_example)
   \<and> rtdb_log (handle PageView (run [(1700000001000, BeforeUnload)] tracker_example))
     \<noteq> rtdb_log (run [(1700000001000, BeforeUnload)] tracker_example)
   \<and> rtdb_log (handle (ToolInteraction (js_of_string ''t1'') (js_of_string ''click'') [])
                 (run [(1700000001000, BeforeUnload)] tracker_example))
     \<noteq> rtdb_log (run [(1700000001000, BeforeUnload)] tracker_example)
   \<and> rtdb_log (handle (VisibilityChange False) (run [(1700000001000, BeforeUnload)] tracker_example))
     \<noteq> rtdb_log (run [(1700000001000, BeforeUnload)] tracker_example)"
proof -
  have "rtdb_log (handle BeforeUnload w) \<noteq> rtdb_log w" for w
    using endSession_log [of w] by simp
  moreover have "rtdb_log (handle PageView w) \<noteq> rtdb_log w" for w
    by (simp add: trackPageView_def Let_def)
  moreover have "rtdb_log (handle (ToolInteraction tid a m) w) \<noteq> rtdb_log w" for w tid a m
    by (simp add: trackToolInteraction_def Let_def)
  moreover have "rtdb_log (handle (VisibilityChange False) w) \<noteq> rtdb_log w" for w
    by (simp add: trackEvent_def updateLastActivity_def)
  ultimately show ?thesis by blast
qed

subsection \<open>Timers\<close>

lemma values_set_at_simps [simp]:
  "values_set_at p [] = []"
  "values_set_at p (x # xs) = value_set_at p x @ values_set_at p xs"
  "values_set_at p (xs @ ys) = values_set_at p xs @ values_set_at p ys"
  by (simp_all add: values_set_at_def)

lemma no_value_issued:
  "\<forall>x \<in> set xs. value_set_at p x = [] \<Longrightarrow> values_set_at p (issued rej xs) = []"
  using issued_subset [of rej xs] by (auto simp: values_set_at_def)

lemma heartbeat_path_neq [simp]:
  "last_activity_path w \<noteq> heartbeat_path w" "heartbeat_path w \<noteq> last_activity_path w"
  by (simp_all add: last_activity_path_def heartbeat_path_def js_of_string_def)

lemma clock_fire [simp]:
  "clock (fire_heartbeat w) = (case heartbeatInterval w of None \<Rightarrow> clock w | Some h \<Rightarrow> max (clock w) h)"
  "clock (fire_timeout w) = (case activityTimeout w of None \<Rightarrow> clock w | Some a \<Rightarrow> max (clock w) a)"
  by (simp_all add: fire_heartbeat_def fire_timeout_def updateLastActivity_def Let_def
      split: option.splits)

lemma clock_advance: "clock (advance t w) = max (clock w) t"
proof (induction t w rule: advance.induct)
  case (1 t w)
  show ?case
    using 1
    by (subst advance.simps)
      (auto simp: heartbeat_due_def timeout_due_def split: option.splits)
qed

lemma heartbeatInterval_fire [simp]:
  "heartbeatInterval (fire_heartbeat w) = map_option (\<lambda>h. h + 30000) (heartbeatInterval w)"
  by (simp add: fire_heartbeat_def Let_def split: option.splits)

lemma activityTimeout_fire [simp]: "activityTimeout (fire_timeout w) = None"
  by (simp add: fire_timeout_def updateLastActivity_def split: option.splits)

subsection \<open>The heartbeat\<close>

lemma handle_heartbeats:
  "values_set_at (heartbeat_path w) (rtdb_log (handle ev w))
     = values_set_at (heartbeat_path w) (rtdb_log w)"
proof (cases ev)
  case PageView
  then show ?thesis by (simp add: trackPageView_def Let_def)
next
  case (ToolInteraction tid a m)
  then show ?thesis by (simp add: trackToolInteraction_def Let_def)
next
  case UserInput
  then show ?thesis by simp
next
  case (VisibilityChange hidden)
  then show ?thesis
    by (simp add: trackEvent_def updateLastActivity_def last_activity_path_def
        heartbeat_path_def js_of_string_def)
next
  case BeforeUnload
  have "values_set_at (heartbeat_path w) (issued (rtdb_rejects w) (endSession_calls w)) = []"
    by (rule no_value_issued) (simp add: endSession_calls_def Let_def)
  then show ?thesis using BeforeUnload by (simp add: endSession_def Let_def)
qed

lemma advance_heartbeats:
  assumes "heartbeatInterval w = Some h" and "clock w \<le> h"
  shows "\<exists>n. heartbeatInterval (advance t w) = Some (h + 30000 * int n)
           \<and> t < h + 30000 * int n
           \<and> (0 < n \<longrightarrow> h + 30000 * (int n - 1) \<le> t)
           \<and> values_set_at (heartbeat_path w) (rtdb_log (advance t w))
               = values_set_at (heartbeat_path w) (rtdb_log w)
                 @ map (\<lambda>k. VNum (h + 30000 * int k)) [0..<n]"
  using assms
proof (induction t w arbitrary: h rule: advance.induct)
  case (1 t w)
  show ?case
  proof (cases "heartbeat_due t w \<and> (\<not> timeout_due t w \<or> heartbeat_first w)")
    case True
    define w1 where "w1 = fire_heartbeat w"
    have due: "h \<le> t" using True 1(3) by (simp add: heartbeat_due_def)
    have h1: "heartbeatInterval w1 = Some (h + 30000)" using 1(3) by (simp add: w1_def)
    have c1: "clock w1 \<le> h + 30000" using 1(3,4) by (simp add: w1_def)
    have l1: "values_set_at (heartbeat_path w) (rtdb_log w1)
                = values_set_at (heartbeat_path w) (rtdb_log w) @ [VNum h]"
      using 1(3,4) by (simp add: w1_def fire_heartbeat_log max_def)
    obtain n where n: "heartbeatInterval (advance t w1) = Some (h + 30000 + 30000 * int n)"
        "t < h + 30000 + 30000 * int n"
        "0 < n \<longrightarrow> h + 30000 + 30000 * (int n - 1) \<le> t"
        "values_set_at (heartbeat_path w1) (rtdb_log (advance t w1))
           = values_set_at (heartbeat_path w1) (rtdb_log w1)
             @ map (\<lambda>k. VNum (h + 30000 + 30000 * int k)) [0..<n]"
      using 1(1) [OF True h1 [unfolded w1_def] c1 [unfolded w1_def]] unfolding w1_def by blast
    have a: "advance t w = advance t w1"
      using True by (subst advance.simps) (simp add: w1_def)
    have m: "map (\<lambda>k. VNum (h + 30000 * int k)) [0..<Suc n]
               = VNum h # map (\<lambda>k. VNum (h + 30000 + 30000 * int k)) [0..<n]"
      by (simp add: upt_conv_Cons map_Suc_upt [symmetric] algebra_simps del: upt_Suc)
    have p: "heartbeat_path w1 = heartbeat_path w" by (simp add: w1_def)
    show ?thesis
    proof (intro exI [of _ "Suc n"] conjI)
      show "heartbeatInterval (advance t w) = Some (h + 30000 * int (Suc n))"
        using n(1) a by (simp add: algebra_simps)
      show "t < h + 30000 * int (Suc n)" using n(2) by (simp add: algebra_simps)
      show "0 < Suc n \<longrightarrow> h + 30000 * (int (Suc n) - 1) \<le> t"
        using n(3) due by (cases n) (simp_all add: algebra_simps)
      show "values_set_at (heartbeat_path w) (rtdb_log (advance t w))
              = values_set_at (heartbeat_path w) (rtdb_log w)
                @ map (\<lambda>k. VNum (h + 30000 * int k)) [0..<Suc n]"
        using n(4) l1 unfolding a m p by simp
    qed
  next
    case False
    show ?thesis
    proof (cases "timeout_due t w")
      case True
      define w1 where "w1 = fire_timeout w"
      obtain a where a: "activityTimeout w = Some a" "a \<le> t"
        using True by (auto simp: timeout_due_def split: option.splits)
      have "a < h \<or> t < h"
        using False True 1(3) a by (auto simp: heartbeat_due_def heartbeat_first_def)
      then have ah: "a \<le> h" using a(2) by auto
      have h1: "heartbeatInterval w1 = Some h" using 1(3) by (simp add: w1_def)
      have c1: "clock w1 \<le> h" using 1(4) a ah by (simp add: w1_def)
      have l1: "values_set_at (heartbeat_path w) (rtdb_log w1)
                  = values_set_at (heartbeat_path w) (rtdb_log w)"
        using a by (simp add: w1_def fire_timeout_log)
      have e: "advance t w = advance t w1"
        using False True by (subst advance.simps) (auto simp: w1_def)
      have p: "heartbeat_path w1 = heartbeat_path w" by (simp add: w1_def)
      have "\<exists>n. heartbeatInterval (advance t w1) = Some (h + 30000 * int n)
           \<and> t < h + 30000 * int n
           \<and> (0 < n \<longrightarrow> h + 30000 * (int n - 1) \<le> t)
           \<and> values_set_at (heartbeat_path w1) (rtdb_log (advance t w1))
               = values_set_at (heartbeat_path w1) (rtdb_log w1)
                 @ map (\<lambda>k. VNum (h + 30000 * int k)) [0..<n]"
        using 1(2) [OF False True h1 [unfolded w1_def] c1 [unfolded w1_def]]
        unfolding w1_def .
      then show ?thesis unfolding e p l1 .
    next
      case nt: False
      have "t < h" using False nt 1(3) by (simp add: heartbeat_due_def)
      moreover have "advance t w = w\<lparr>clock := max (clock w) t\<rparr>"
        using False nt by (subst advance.simps) auto
      ultimately show ?thesis
        using 1(3) by (intro exI [of _ 0]) simp
    qed
  qed
qed

lemma div_30000_unique:
  fixes x :: int
  assumes "30000 * int m \<le> x" and "x < 30000 * (int m + 1)"
  shows "nat (x div 30000) = m"
proof -
  have "x div 30000 = int m"
    by (rule int_div_pos_eq [of x 30000 "int m" "x - 30000 * int m"]) (use assms in simp_all)
  then show ?thesis by simp
qed

lemma advance_heartbeat_invariant:
  assumes "heartbeatInterval w = Some (t0 + 30000 * (int m + 1))"
    and "t0 + 30000 * int m \<le> clock w" and "clock w < t0 + 30000 * (int m + 1)"
    and "values_set_at (heartbeat_path w) (rtdb_log w)
           = pre @ map (\<lambda>k. VNum (t0 + 30000 * (int k + 1))) [0..<m]"
  shows "\<exists>m'. heartbeatInterval (advance t w) = Some (t0 + 30000 * (int m' + 1))
           \<and> t0 + 30000 * int m' \<le> clock (advance t w)
           \<and> clock (advance t w) < t0 + 30000 * (int m' + 1)
           \<and> values_set_at (heartbeat_path w) (rtdb_log (advance t w))
               = pre @ map (\<lambda>k. VNum (t0 + 30000 * (int k + 1))) [0..<m']"
proof -
  define h where "h = t0 + 30000 * (int m + 1)"
  have c: "clock w \<le> h" using assms(3) by (simp add: h_def)
  obtain n where n: "heartbeatInterval (advance t w) = Some (h + 30000 * int n)"
      "t < h + 30000 * int n"
      "0 < n \<longrightarrow> h + 30000 * (int n - 1) \<le> t"
      "values_set_at (heartbeat_path w) (rtdb_log (advance t w))
         = values_set_at (heartbeat_path w) (rtdb_log w)
           @ map (\<lambda>k. VNum (h + 30000 * int k)) [0..<n]"
    using advance_heartbeats [OF assms(1) [folded h_def] c, of t] by blast
  have s: "map (\<lambda>k. VNum (h + 30000 * int k)) [0..<n]
             = map (\<lambda>k. VNum (t0 + 30000 * (int k + 1))) [m..<m + n]"
  proof -
    have "map (\<lambda>k. VNum (t0 + 30000 * (int k + 1))) [m..<n + m]
            = map (\<lambda>k. VNum (t0 + 30000 * (int k + 1))) (map (\<lambda>i. i + m) [0..<n])"
      by (simp only: map_add_upt)
    then show ?thesis by (simp add: h_def algebra_simps comp_def)
  qed
  have u: "[0..<m + n] = [0..<m] @ [m..<m + n]"
    by (rule upt_add_eq_append) simp
  show ?thesis
  proof (intro exI [of _ "m + n"] conjI)
    show "heartbeatInterval (advance t w) = Some (t0 + 30000 * (int (m + n) + 1))"
      using n(1) by (simp add: h_def algebra_simps)
    show "t0 + 30000 * int (m + n) \<le> clock (advance t w)"
    proof (cases n)
      case 0
      then show ?thesis using assms(2) by (simp add: clock_advance)
    next
      case (Suc k)
      then show ?thesis using n(3) by (simp add: clock_advance h_def algebra_simps)
    qed
    show "clock (advance t w) < t0 + 30000 * (int (m + n) + 1)"
      using n(2) assms(3) by (simp add: clock_advance h_def algebra_simps)
    show "values_set_at (heartbeat_path w) (rtdb_log (advance t w))
            = pre @ map (\<lambda>k. VNum (t0 + 30000 * (int k + 1))) [0..<m + n]"
      unfolding n(4) assms(4) s u by simp
  qed
qed

lemma run_heartbeat_invariant:
  assumes "heartbeatInterval w = Some (t0 + 30000 * (int m + 1))"
    and "t0 + 30000 * int m \<le> clock w" and "clock w < t0 + 30000 * (int m + 1)"
    and "values_set_at (heartbeat_path w) (rtdb_log w)
           = pre @ map (\<lambda>k. VNum (t0 + 30000 * (int k + 1))) [0..<m]"
  shows "\<exists>m'. heartbeatInterval (run evs w) = Some (t0 + 30000 * (int m' + 1))
           \<and> t0 + 30000 * int m' \<le> clock (run evs w)
           \<and> clock (run evs w) < t0 + 30000 * (int m' + 1)
           \<and> values_set_at (heartbeat_path w) (rtdb_log (run evs w))
               = pre @ map (\<lambda>k. VNum (t0 + 30000 * (int k + 1))) [0..<m']"
  using assms
proof (induction evs arbitrary: w m)
  case Nil
  then show ?case by auto
next
  case (Cons te evs)
  obtain t ev where te: "te = (t, ev)" by (cases te)
  obtain m1 where m1: "heartbeatInterval (advance t w) = Some (t0 + 30000 * (int m1 + 1))"
      "t0 + 30000 * int m1 \<le> clock (advance t w)"
      "clock (advance t w) < t0 + 30000 * (int m1 + 1)"
      "values_set_at (heartbeat_path w) (rtdb_log (advance t w))
         = pre @ map (\<lambda>k. VNum (t0 + 30000 * (int k + 1))) [0..<m1]"
    using advance_heartbeat_invariant [OF Cons.prems, of t] by blast
  define w1 where "w1 = handle ev (advance t w)"
  have p: "heartbeat_path w1 = heartbeat_path w" by (simp add: w1_def)
  have a: "heartbeatInterval w1 = Some (t0 + 30000 * (int m1 + 1))"
    "t0 + 30000 * int m1 \<le> clock w1" "clock w1 < t0 + 30000 * (int m1 + 1)"
    using m1(1-3) by (simp_all add: w1_def)
  have b: "values_set_at (heartbeat_path w1) (rtdb_log w1)
             = pre @ map (\<lambda>k. VNum (t0 + 30000 * (int k + 1))) [0..<m1]"
    using handle_heartbeats [of "advance t w" ev] m1(4) by (simp add: w1_def)
  show ?case
    using Cons.IH [OF a b] te unfolding p by (simp add: w1_def)
qed

lemma tracker_init_heartbeat:
  assumes "w0 = tracker_init stringify e p"
  shows "heartbeatInterval w0 = Some (clock p + 30000)" and "clock w0 = clock p"
    and "values_set_at (heartbeat_path w0) (rtdb_log w0)
           = values_set_at (heartbeat_path w0) (rtdb_log p)"
proof -
  obtain sid w1 where g: "generateSessionId (new_tracker e p) = (sid, w1)"
    by (cases "generateSessionId (new_tracker e p)")
  define w2 where "w2 = w1\<lparr> sessionId := sid, userId := js_of_string (init_userId stringify e),
                             sessionStart := clock w1, lastActivity := clock w1 \<rparr>"
  have c1: "clock w1 = clock p" and l1: "rtdb_log w1 = rtdb_log p"
    using generateSessionId_fields(2,3) [of "new_tracker e p"] g by simp_all
  have w0: "w0 = (setupHeartbeat (trackPageView (startSession w2)))
                   \<lparr>console := console (setupHeartbeat (trackPageView (startSession w2)))
                      @ [js_of_string ''Analytics initialized - Session: ''
                         @ take 8 (sessionId (setupHeartbeat (trackPageView (startSession w2))))
                         @ js_of_string ''...'']\<rparr>"
    using assms g by (simp add: tracker_init_def Let_def w2_def)
  have c: "clock (trackPageView (startSession w2)) = clock p"
    using c1 by (simp add: trackPageView_def startSession_def Let_def w2_def)
  show "heartbeatInterval w0 = Some (clock p + 30000)"
    unfolding w0 using c by (simp add: setupHeartbeat_def)
  show "clock w0 = clock p"
    unfolding w0 using c by (simp add: setupHeartbeat_def)
  have hp: "heartbeat_path w0 = heartbeat_path w2"
    unfolding w0
    by (simp add: heartbeat_path_def setupHeartbeat_def trackPageView_def startSession_def Let_def)
  have l0: "rtdb_log w0 = rtdb_log (trackPageView (startSession w2))"
    unfolding w0 by (simp add: setupHeartbeat_def)
  have s: "values_set_at (heartbeat_path w2) (rtdb_log (startSession w2))
             = values_set_at (heartbeat_path w2) (rtdb_log w2)"
    by (simp add: startSession_def Let_def heartbeat_path_def js_of_string_def)
  have t: "values_set_at q (rtdb_log (trackPageView v)) = values_set_at q (rtdb_log v)" for q v
    by (simp add: trackPageView_def Let_def)
  have "rtdb_log w2 = rtdb_log p" using l1 by (simp add: w2_def)
  then show "values_set_at (heartbeat_path w0) (rtdb_log w0)
           = values_set_at (heartbeat_path w0) (rtdb_log p)"
    unfolding hp l0 t s by simp
qed

lemma heartbeats_of_run:
  assumes "w0 = tracker_init stringify e p" and "w = advance T (run evs w0)"
  shows "values_set_at (heartbeat_path w0) (rtdb_log w)
           = values_set_at (heartbeat_path w0) (rtdb_log p)
             @ map (\<lambda>k. VNum (clock p + 30000 * (int k + 1)))
                 [0..<nat ((clock w - clock p) div 30000)]"
    and "heartbeatInterval w \<noteq> None"
proof -
  note i = tracker_init_heartbeat [OF assms(1)]
  have a: "heartbeatInterval w0 = Some (clock p + 30000 * (int 0 + 1))"
    "clock p + 30000 * int 0 \<le> clock w0" "clock w0 < clock p + 30000 * (int 0 + 1)"
    "values_set_at (heartbeat_path w0) (rtdb_log w0)
       = values_set_at (heartbeat_path w0) (rtdb_log p)
         @ map (\<lambda>k. VNum (clock p + 30000 * (int k + 1))) [0..<0]"
    using i by simp_all
  obtain m1 where m1: "heartbeatInterval (run evs w0) = Some (clock p + 30000 * (int m1 + 1))"
      "clock p + 30000 * int m1 \<le> clock (run evs w0)"
      "clock (run evs w0) < clock p + 30000 * (int m1 + 1)"
      "values_set_at (heartbeat_path w0) (rtdb_log (run evs w0))
         = values_set_at (heartbeat_path w0) (rtdb_log p)
           @ map (\<lambda>k. VNum (clock p + 30000 * (int k + 1))) [0..<m1]"
    using run_heartbeat_invariant [OF a, of evs] by blast
  have p1: "heartbeat_path (run evs w0) = heartbeat_path w0" by simp
  obtain m2 where m2: "heartbeatInterval w = Some (clock p + 30000 * (int m2 + 1))"
      "clock p + 30000 * int m2 \<le> clock w"
      "clock w < clock p + 30000 * (int m2 + 1)"
      "values_set_at (heartbeat_path w0) (rtdb_log w)
         = values_set_at (heartbeat_path w0) (rtdb_log p)
           @ map (\<lambda>k. VNum (clock p + 30000 * (int k + 1))) [0..<m2]"
    using advance_heartbeat_invariant [OF m1(1-3) m1(4) [folded p1], of T]
    unfolding p1 assms(2) by blast
  have "nat ((clock w - clock p) div 30000) = m2"
    by (rule div_30000_unique) (use m2(2,3) in simp_all)
  then show "values_set_at (heartbeat_path w0) (rtdb_log w)
           = values_set_at (heartbeat_path w0) (rtdb_log p)
             @ map (\<lambda>k. VNum (clock p + 30000 * (int k + 1)))
                 [0..<nat ((clock w - clock p) div 30000)]"
    using m2(4) by simp
  show "heartbeatInterval w \<noteq> None" using m2(1) by simp
qed

text \<open>
  C4, as the code has it: from construction on, a heartbeat is written every 30000 ms,
  at the times \<open>start + 30000\<close>, \<open>start + 60000\<close>, ... up to the present, whatever events
  arrive in between, \<open>beforeunload\<close> and its \<open>endSession\<close> among them: nothing clears the
  interval, so the heartbeats go on for as long as the page's timers run.
\<close>

theorem heartbeat_every_interval_never_cleared:
  assumes "w0 = tracker_init stringify e p" and "w = advance T (run evs w0)"
  shows "values_set_at (heartbeat_path w0) (rtdb_log w)
           = values_set_at (heartbeat_path w0) (rtdb_log p)
             @ map (\<lambda>k. VNum (clock p + 30000 * (int k + 1)))
                 [0..<nat ((clock w - clock p) div 30000)]
       \<and> T \<le> clock w
       \<and> heartbeatInterval w \<noteq> None"
proof -
  have "T \<le> clock w"
    using assms(2) by (simp add: clock_advance)
  then show ?thesis
    using heartbeats_of_run [OF assms] by simp
qed

theorem heartbeat_every_interval_never_cleared_witness:
  "values_set_at (heartbeat_path tracker_example)
     (rtdb_log (advance 1700000095000 (run [(1700000001000, BeforeUnload)] tracker_example)))
     = [VNum 1700000030000, VNum 1700000060000, VNum 1700000090000]"
proof -
  have a: "tracker_example
             = tracker_init stringify_example (env_example ''https://a.example/'' ''0.k3j9x1m2p4q'')
                 page_example"
    by (simp add: tracker_example_def)
  define w where "w = advance 1700000095000 (run [(1700000001000, BeforeUnload)] tracker_example)"
  have c: "clock w = 1700000095000"
    using tracker_init_heartbeat(2) [OF a]
    by (simp add: w_def clock_advance page_example_def del: handle.simps)
  note t = heartbeat_every_interval_never_cleared [OF a w_def]
  have u: "[0..<3] = [0, 1, 2::nat]" by (simp add: upt_rec)
  show ?thesis
    unfolding w_def [symmetric] using t c u by (simp add: page_example_def)
qed

text \<open>
  The example tracker whose page goes on after \<open>beforeunload\<close> at 5 s: heartbeats are
  written at 60 s, 90 s and 120 s after the start, more than one interval after the end.
\<close>

theorem heartbeat_after_endSession:
  "values_set_at (heartbeat_path tracker_example)
     (rtdb_log (advance 1700000120000 (run [(1700000005000, BeforeUnload)] tracker_example)))
     = [VNum 1700000030000, VNum 1700000060000, VNum 1700000090000, VNum 1700000120000]"
proof -
  have a: "tracker_example
             = tracker_init stringify_example (env_example ''https://a.example/'' ''0.k3j9x1m2p4q'')
                 page_example"
    by (simp add: tracker_example_def)
  define w where "w = advance 1700000120000 (run [(1700000005000, BeforeUnload)] tracker_example)"
  have c: "clock w = 1700000120000"
    using tracker_init_heartbeat(2) [OF a]
    by (simp add: w_def clock_advance page_example_def del: handle.simps)
  have u: "[0..<4] = [0, 1, 2, 3::nat]" by (simp add: upt_rec)
  show ?thesis
    unfolding w_def [symmetric] using heartbeats_of_run(1) [OF a w_def] c u
    by (simp add: page_example_def)
qed

subsection \<open>The debounced activity write\<close>

lemma advance_last_activity:
  "values_set_at (last_activity_path w) (rtdb_log (advance t w))
     = values_set_at (last_activity_path w) (rtdb_log w)
       @ (if timeout_due t w then [VNum (lastActivity w)] else [])
   \<and> activityTimeout (advance t w) = (if timeout_due t w then None else activityTimeout w)"
proof (induction t w rule: advance.induct)
  case (1 t w)
  show ?case
  proof (cases "heartbeat_due t w \<and> (\<not> timeout_due t w \<or> heartbeat_first w)")
    case True
    have a: "advance t w = advance t (fire_heartbeat w)"
      using True by (subst advance.simps) simp
    have d: "timeout_due t (fire_heartbeat w) = timeout_due t w"
      by (simp add: timeout_due_def)
    have l: "values_set_at (last_activity_path w) (rtdb_log (fire_heartbeat w))
               = values_set_at (last_activity_path w) (rtdb_log w)"
      by (simp add: fire_heartbeat_log split: option.splits)
    show ?thesis
      using 1(1) [OF True] l by (simp add: a d)
  next
    case False
    show ?thesis
    proof (cases "timeout_due t w")
      case True
      have a: "advance t w = advance t (fire_timeout w)"
        using False True by (subst advance.simps) auto
      have d: "\<not> timeout_due t (fire_timeout w)"
        by (simp add: timeout_due_def)
      have l: "values_set_at (last_activity_path w) (rtdb_log (fire_timeout w))
               = values_set_at (last_activity_path w) (rtdb_log w) @ [VNum (lastActivity w)]"
        using True by (auto simp: fire_timeout_log timeout_due_def split: option.splits)
      show ?thesis
        using 1(2) [OF False True] True l by (simp add: a d)
    next
      case nt: False
      have "advance t w = w\<lparr>clock := max (clock w) t\<rparr>"
        using False nt by (subst advance.simps) auto
      then show ?thesis using nt by simp
    qed
  qed
qed

lemma burst_keeps_one_timeout:
  assumes "sorted ts" and "\<forall>u \<in> set ts. clock w \<le> u \<and> u < b \<and> b \<le> u + 1000"
    and "activityTimeout w = Some a" and "b \<le> a"
  shows "values_set_at (last_activity_path w) (rtdb_log (run (map (\<lambda>u. (u, UserInput)) ts) w))
           = values_set_at (last_activity_path w) (rtdb_log w)
       \<and> activityTimeout (run (map (\<lambda>u. (u, UserInput)) ts) w)
           = Some (if ts = [] then a else last ts + 1000)
       \<and> lastActivity (run (map (\<lambda>u. (u, UserInput)) ts) w)
           = (if ts = [] then lastActivity w else last ts)"
  using assms
proof (induction ts arbitrary: w a)
  case Nil
  then show ?case by simp
next
  case (Cons u us)
  define w1 where "w1 = handle UserInput (advance u w)"
  have nd: "\<not> timeout_due u w"
    using Cons.prems by (simp add: timeout_due_def)
  have c1: "clock w1 = u"
    using Cons.prems(2) by (simp add: w1_def clock_advance)
  have l1: "values_set_at (last_activity_path w) (rtdb_log w1)
              = values_set_at (last_activity_path w) (rtdb_log w)"
    using advance_last_activity [of w u] nd by (simp add: w1_def)
  have t1: "activityTimeout w1 = Some (u + 1000)" and a1: "lastActivity w1 = u"
    using Cons.prems(2) by (simp_all add: w1_def clock_advance)
  have p1: "last_activity_path w1 = last_activity_path w"
    by (simp add: w1_def del: handle.simps)
  have s: "sorted us" using Cons.prems(1) by simp
  have r: "\<forall>v \<in> set us. clock w1 \<le> v \<and> v < b \<and> b \<le> v + 1000"
    using Cons.prems(1,2) c1 by auto
  have b: "b \<le> u + 1000" using Cons.prems(2) by simp
  have e: "run (map (\<lambda>u. (u, UserInput)) (u # us)) w = run (map (\<lambda>u. (u, UserInput)) us) w1"
    by (simp add: w1_def)
  show ?case
    using Cons.IH [OF s r t1 b] unfolding e p1 l1 a1 by simp
qed

lemma advance_spacing:
  assumes "values_set_at (last_activity_path w) (rtdb_log w) = pre @ map VNum ns"
    and "\<forall>x \<in> set ns. x + 1000 \<le> clock w"
    and "sorted_wrt (\<lambda>x y. x + 1000 \<le> y) ns"
    and "\<forall>a. activityTimeout w = Some a \<longrightarrow>
           a = lastActivity w + 1000 \<and> (\<forall>x \<in> set ns. x + 1000 \<le> lastActivity w)"
  shows "\<exists>ns'. values_set_at (last_activity_path w) (rtdb_log (advance t w)) = pre @ map VNum ns'
           \<and> (\<forall>x \<in> set ns'. x + 1000 \<le> clock (advance t w))
           \<and> sorted_wrt (\<lambda>x y. x + 1000 \<le> y) ns'
           \<and> (\<forall>a. activityTimeout (advance t w) = Some a \<longrightarrow>
                 a = lastActivity (advance t w) + 1000
                 \<and> (\<forall>x \<in> set ns'. x + 1000 \<le> lastActivity (advance t w)))"
proof (cases "timeout_due t w")
  case True
  then obtain a where a: "activityTimeout w = Some a" "a \<le> t"
    by (auto simp: timeout_due_def split: option.splits)
  have l: "a = lastActivity w + 1000" "\<forall>x \<in> set ns. x + 1000 \<le> lastActivity w"
    using assms(4) a(1) by auto
  show ?thesis
  proof (intro exI [of _ "ns @ [lastActivity w]"] conjI)
    show "values_set_at (last_activity_path w) (rtdb_log (advance t w))
            = pre @ map VNum (ns @ [lastActivity w])"
      using advance_last_activity [of w t] True assms(1) by simp
    show "\<forall>x \<in> set (ns @ [lastActivity w]). x + 1000 \<le> clock (advance t w)"
      using assms(2) l(1) a(2) by (auto simp: clock_advance)
    show "sorted_wrt (\<lambda>x y. x + 1000 \<le> y) (ns @ [lastActivity w])"
      using assms(3) l(2) by (simp add: sorted_wrt_append)
    show "\<forall>a. activityTimeout (advance t w) = Some a \<longrightarrow>
            a = lastActivity (advance t w) + 1000
            \<and> (\<forall>x \<in> set (ns @ [lastActivity w]). x + 1000 \<le> lastActivity (advance t w))"
      using advance_last_activity [of w t] True by simp
  qed
next
  case False
  show ?thesis
  proof (intro exI [of _ ns] conjI)
    show "values_set_at (last_activity_path w) (rtdb_log (advance t w)) = pre @ map VNum ns"
      using advance_last_activity [of w t] False assms(1) by simp
    show "\<forall>x \<in> set ns. x + 1000 \<le> clock (advance t w)"
      using assms(2) by (auto simp: clock_advance)
    show "sorted_wrt (\<lambda>x y. x + 1000 \<le> y) ns" by (rule assms(3))
    show "\<forall>a. activityTimeout (advance t w) = Some a \<longrightarrow>
            a = lastActivity (advance t w) + 1000
            \<and> (\<forall>x \<in> set ns. x + 1000 \<le> lastActivity (advance t w))"
      using advance_last_activity [of w t] False assms(4) by simp
  qed
qed

lemma inputs_spacing:
  assumes "values_set_at (last_activity_path w) (rtdb_log w) = pre @ map VNum ns"
    and "\<forall>x \<in> set ns. x + 1000 \<le> clock w"
    and "sorted_wrt (\<lambda>x y. x + 1000 \<le> y) ns"
    and "\<forall>a. activityTimeout w = Some a \<longrightarrow>
           a = lastActivity w + 1000 \<and> (\<forall>x \<in> set ns. x + 1000 \<le> lastActivity w)"
  shows "\<exists>ns'. values_set_at (last_activity_path w)
                 (rtdb_log (advance T (run (map (\<lambda>u. (u, UserInput)) ts) w)))
               = pre @ map VNum ns'
           \<and> sorted_wrt (\<lambda>x y. x + 1000 \<le> y) ns'"
  using assms
proof (induction ts arbitrary: w ns)
  case Nil
  show ?case
    using advance_spacing [OF Nil.prems, of T] by auto
next
  case (Cons u us)
  obtain ns1 where n: "values_set_at (last_activity_path w) (rtdb_log (advance u w)) = pre @ map VNum ns1"
      "\<forall>x \<in> set ns1. x + 1000 \<le> clock (advance u w)"
      "sorted_wrt (\<lambda>x y. x + 1000 \<le> y) ns1"
    using advance_spacing [OF Cons.prems, of u] by blast
  define w1 where "w1 = handle UserInput (advance u w)"
  have p1: "last_activity_path w1 = last_activity_path w"
    by (simp add: w1_def del: handle.simps)
  have a: "values_set_at (last_activity_path w1) (rtdb_log w1) = pre @ map VNum ns1"
    unfolding p1 using n(1) by (simp add: w1_def)
  have b: "\<forall>x \<in> set ns1. x + 1000 \<le> clock w1"
    using n(2) by (simp add: w1_def)
  have c: "\<forall>a. activityTimeout w1 = Some a \<longrightarrow>
             a = lastActivity w1 + 1000 \<and> (\<forall>x \<in> set ns1. x + 1000 \<le> lastActivity w1)"
    using n(2) by (simp add: w1_def)
  have e: "run (map (\<lambda>u. (u, UserInput)) (u # us)) w = run (map (\<lambda>u. (u, UserInput)) us) w1"
    by (simp add: w1_def)
  show ?case
    using Cons.IH [OF a b n(3) c] unfolding e p1 .
qed

lemma tracker_init_activityTimeout: "activityTimeout (tracker_init stringify e p) = None"
  by (simp add: tracker_init_def Let_def split_beta setupHeartbeat_def trackPageView_def
      startSession_def generateSessionId_def new_tracker_def page.defs tracker.defs)

text \<open>
  C7: input signals at the times \<open>t1 \<le> ... \<le> tn\<close>, all within one second of the first,
  lead to no write of the last-activity timestamp before \<open>tn + 1000\<close> and to exactly one
  from then on, and it carries \<open>tn\<close>, the time of the last signal. Under input signals
  alone, at whatever times, the timestamps of any two such writes lie at least 1000 ms
  apart. A \<open>visibilitychange\<close> to visible writes the current time at once and leaves the
  pending timeout alone.
\<close>

theorem debounce_coalesces_burst:
  assumes "sorted (t1 # ts)" and "\<forall>u \<in> set ts. u < t1 + 1000" and "clock w \<le> t1"
    and "w' = advance T (run (map (\<lambda>u. (u, UserInput)) (t1 # ts)) w)"
  shows "values_set_at (last_activity_path w) (rtdb_log w')
           = values_set_at (last_activity_path w) (rtdb_log (advance t1 w))
             @ (if last (t1 # ts) + 1000 \<le> T then [VNum (last (t1 # ts))] else [])
       \<and> (\<forall>v us T'. activityTimeout v = None \<longrightarrow>
             (\<exists>ns. values_set_at (last_activity_path v)
                     (rtdb_log (advance T' (run (map (\<lambda>u. (u, UserInput)) us) v)))
                   = values_set_at (last_activity_path v) (rtdb_log v) @ map VNum ns
                 \<and> sorted_wrt (\<lambda>x y. x + 1000 \<le> y) ns))
       \<and> (\<forall>v. values_set_at (last_activity_path v) (rtdb_log (handle (VisibilityChange False) v))
                 = values_set_at (last_activity_path v) (rtdb_log v) @ [VNum (clock v)]
               \<and> activityTimeout (handle (VisibilityChange False) v) = activityTimeout v)"
proof (intro conjI allI impI)
  define w1 where "w1 = handle UserInput (advance t1 w)"
  define w2 where "w2 = run (map (\<lambda>u. (u, UserInput)) ts) w1"
  have c1: "clock w1 = t1" using assms(3) by (simp add: w1_def clock_advance)
  have t1: "activityTimeout w1 = Some (t1 + 1000)" and a1: "lastActivity w1 = t1"
    using assms(3) by (simp_all add: w1_def clock_advance)
  have l1: "rtdb_log w1 = rtdb_log (advance t1 w)" by (simp add: w1_def)
  have p1: "last_activity_path w1 = last_activity_path w"
    by (simp add: w1_def del: handle.simps)
  have s: "sorted ts" using assms(1) by simp
  have r: "\<forall>u \<in> set ts. clock w1 \<le> u \<and> u < t1 + 1000 \<and> t1 + 1000 \<le> u + 1000"
    using assms(1,2) c1 by auto
  note b = burst_keeps_one_timeout [OF s r t1 order_refl, folded w2_def, unfolded p1 l1 a1]
  have d: "timeout_due T w2 \<longleftrightarrow> last (t1 # ts) + 1000 \<le> T"
    using b by (simp add: timeout_due_def)
  have a2: "lastActivity w2 = last (t1 # ts)" using b by simp
  have p2: "last_activity_path w2 = last_activity_path w" unfolding w2_def p1 [symmetric] by simp
  have e: "w' = advance T w2" using assms(4) by (simp add: w2_def w1_def)
  show "values_set_at (last_activity_path w) (rtdb_log w')
           = values_set_at (last_activity_path w) (rtdb_log (advance t1 w))
             @ (if last (t1 # ts) + 1000 \<le> T then [VNum (last (t1 # ts))] else [])"
    using advance_last_activity [of w2 T] b unfolding e p2 d a2 by simp
next
  fix v :: tracker and us T'
  assume n: "activityTimeout v = None"
  show "\<exists>ns. values_set_at (last_activity_path v)
               (rtdb_log (advance T' (run (map (\<lambda>u. (u, UserInput)) us) v)))
             = values_set_at (last_activity_path v) (rtdb_log v) @ map VNum ns
           \<and> sorted_wrt (\<lambda>x y. x + 1000 \<le> y) ns"
    by (rule inputs_spacing [of v _ "[]"]) (simp_all add: n)
next
  fix v
  show "values_set_at (last_activity_path v) (rtdb_log (handle (VisibilityChange False) v))
          = values_set_at (last_activity_path v) (rtdb_log v) @ [VNum (clock v)]"
    by (simp add: trackEvent_def updateLastActivity_def last_activity_path_def)
  show "activityTimeout (handle (VisibilityChange False) v) = activityTimeout v"
    by (simp add: trackEvent_def updateLastActivity_def)
qed

theorem debounce_coalesces_burst_witness:
  "values_set_at (last_activity_path tracker_example)
     (rtdb_log (advance 1700000005000
        (run [(1700000000100, UserInput), (1700000000300, UserInput), (1700000000900, UserInput)]
           tracker_example)))
     = values_set_at (last_activity_path tracker_example)
         (rtdb_log (advance 1700000000100 tracker_example))
       @ [VNum 1700000000900]
   \<and> values_set_at (last_activity_path tracker_example)
       (rtdb_log (advance 1700000001500
          (run [(1700000000100, UserInput), (1700000000300, UserInput), (1700000000900, UserInput)]
             tracker_example)))
     = values_set_at (last_activity_path tracker_example)
         (rtdb_log (advance 1700000000100 tracker_example))
   \<and> (\<exists>ns. values_set_at (last_activity_path tracker_example)
             (rtdb_log (advance 1700000009000
                (run (map (\<lambda>u. (u, UserInput))
                        [1700000000100, 1700000001500, 1700000001600, 1700000004000])
                   tracker_example)))
           = values_set_at (last_activity_path tracker_example) (rtdb_log tracker_example)
             @ map VNum ns
         \<and> sorted_wrt (\<lambda>x y. x + 1000 \<le> y) ns)"
proof -
  have a: "tracker_example
             = tracker_init stringify_example (env_example ''https://a.example/'' ''0.k3j9x1m2p4q'')
                 page_example"
    by (simp add: tracker_example_def)
  have c: "clock tracker_example \<le> 1700000000100"
    using tracker_init_heartbeat(2) [OF a] by (simp add: page_example_def)
  have n: "activityTimeout tracker_example = None"
    unfolding a by (rule tracker_init_activityTimeout)
  have s: "sorted [1700000000100, 1700000000300, 1700000000900 :: int]" by simp
  have r: "\<forall>u \<in> set [1700000000300, 1700000000900 :: int]. u < 1700000000100 + 1000" by simp
  note t1 = debounce_coalesces_burst [OF s r c refl, of 1700000005000]
  note t2 = debounce_coalesces_burst [OF s r c refl, of 1700000001500]
  have "\<exists>ns. values_set_at (last_activity_path tracker_example)
             (rtdb_log (advance 1700000009000
                (run (map (\<lambda>u. (u, UserInput))
                        [1700000000100, 1700000001500, 1700000001600, 1700000004000])
                   tracker_example)))
           = values_set_at (last_activity_path tracker_example) (rtdb_log tracker_example)
             @ map VNum ns
         \<and> sorted_wrt (\<lambda>x y. x + 1000 \<le> y) ns"
    using conjunct1 [OF conjunct2 [OF t1]] n by blast
  then show ?thesis
    using conjunct1 [OF t1] conjunct1 [OF t2] by simp
qed

section \<open>Interaction counter\<close>

lemma increment_update_stored: "increment_update c = stored c + 1"
  by (simp add: increment_update_def stored_def split: option.splits)

lemma count_done_update_Done:
  "i < length cs \<Longrightarrow> cs ! i \<noteq> Done \<Longrightarrow> count_done (cs[i := Done]) = Suc (count_done cs)"
proof (induction cs arbitrary: i)
  case Nil
  then show ?case by simp
next
  case (Cons s cs)
  then show ?case by (cases i) (auto simp: count_done_def)
qed

lemma count_done_update_other:
  "i < length cs \<Longrightarrow> cs ! i \<noteq> Done \<Longrightarrow> s \<noteq> Done \<Longrightarrow> count_done (cs[i := s]) = count_done cs"
proof (induction cs arbitrary: i)
  case Nil
  then show ?case by simp
next
  case (Cons x cs)
  then show ?case by (cases i) (auto simp: count_done_def)
qed

text \<open>
  What every step keeps: a pending caller holds the successor of the value it read, and
  the stored value exceeds the number of finished callers by a constant.
\<close>

lemma counter_step_invariant:
  assumes "\<forall>s \<in> set cs. \<forall>v new. s = Pending v new \<longrightarrow> new = stored v + 1"
    and "counter_step a (c, cs) = (c', cs')"
  shows "(\<forall>s \<in> set cs'. \<forall>v new. s = Pending v new \<longrightarrow> new = stored v + 1)
       \<and> stored c' - int (count_done cs') = stored c - int (count_done cs)
       \<and> length cs' = length cs"
proof (cases a)
  case (ReadCurrent i)
  show ?thesis
  proof (cases "i < length cs \<and> cs ! i = Idle Transaction")
    case True
    then have e: "c' = c" "cs' = cs[i := Pending c (increment_update c)]"
      using assms(2) ReadCurrent by auto
    have "count_done cs' = count_done cs"
      unfolding e using True by (intro count_done_update_other) simp_all
    moreover have "\<forall>s \<in> set cs'. \<forall>v new. s = Pending v new \<longrightarrow> new = stored v + 1"
      unfolding e using assms(1) set_update_subset_insert [of cs i "Pending c (increment_update c)"]
      by (auto simp: increment_update_stored)
    ultimately show ?thesis by (simp add: e)
  next
    case False
    then show ?thesis using assms ReadCurrent by auto
  qed
next
  case (CompareAndSet i)
  show ?thesis
  proof (cases "i < length cs")
    case True
    show ?thesis
    proof (cases "cs ! i")
      case (Idle k)
      then show ?thesis using assms CompareAndSet True by auto
    next
      case Done
      then show ?thesis using assms CompareAndSet True by auto
    next
      case (Pending v new)
      have n: "new = stored v + 1"
        using assms(1) Pending True nth_mem [of i cs] by auto
      show ?thesis
      proof (cases "c = v")
        case True
        then have e: "c' = Some new" "cs' = cs[i := Done]"
          using assms(2) CompareAndSet Pending \<open>i < length cs\<close> by auto
        have "count_done cs' = Suc (count_done cs)"
          unfolding e using \<open>i < length cs\<close> Pending by (intro count_done_update_Done) simp_all
        moreover have "\<forall>s \<in> set cs'. \<forall>v new. s = Pending v new \<longrightarrow> new = stored v + 1"
          unfolding e using assms(1) set_update_subset_insert [of cs i Done] by auto
        ultimately show ?thesis using n True by (simp add: e stored_def)
      next
        case False
        then have e: "c' = c" "cs' = cs[i := Idle Transaction]"
          using assms(2) CompareAndSet Pending \<open>i < length cs\<close> by auto
        have "count_done cs' = count_done cs"
          unfolding e using \<open>i < length cs\<close> Pending by (intro count_done_update_other) simp_all
        moreover have "\<forall>s \<in> set cs'. \<forall>v new. s = Pending v new \<longrightarrow> new = stored v + 1"
          unfolding e using assms(1) set_update_subset_insert [of cs i "Idle Transaction"] by auto
        ultimately show ?thesis by (simp add: e)
      qed
    qed
  next
    case False
    then show ?thesis using assms CompareAndSet by auto
  qed
next
  case (ServerIncrement i)
  show ?thesis
  proof (cases "i < length cs \<and> cs ! i = Idle AtomicIncrement")
    case True
    then have e: "c' = Some (stored c + 1)" "cs' = cs[i := Done]"
      using assms(2) ServerIncrement by auto
    have "count_done cs' = Suc (count_done cs)"
      unfolding e using True by (intro count_done_update_Done) simp_all
    moreover have "\<forall>s \<in> set cs'. \<forall>v new. s = Pending v new \<longrightarrow> new = stored v + 1"
      unfolding e using assms(1) set_update_subset_insert [of cs i Done] by auto
    ultimately show ?thesis by (simp add: e stored_def)
  next
    case False
    then show ?thesis using assms ServerIncrement by auto
  qed
qed

lemma run_schedule_invariant:
  assumes "\<forall>s \<in> set cs. \<forall>v new. s = Pending v new \<longrightarrow> new = stored v + 1"
    and "run_schedule sched (c, cs) = (c', cs')"
  shows "stored c' - int (count_done cs') = stored c - int (count_done cs) \<and> length cs' = length cs"
  using assms
proof (induction sched arbitrary: c cs)
  case Nil
  then show ?case by (simp add: run_schedule_def)
next
  case (Cons a sched)
  obtain c1 cs1 where s: "counter_step a (c, cs) = (c1, cs1)"
    by (cases "counter_step a (c, cs)")
  note i = counter_step_invariant [OF Cons.prems(1) s]
  have r: "run_schedule sched (c1, cs1) = (c', cs')"
    using Cons.prems(2) s by (simp add: run_schedule_def)
  show ?case
    using Cons.IH [OF conjunct1 [OF i] r] i by simp
qed

text \<open>Callers can always finish: one after the other, each without a conflict.\<close>

lemma run_schedule_append:
  "run_schedule (xs @ ys) cfg = run_schedule ys (run_schedule xs cfg)"
  by (simp add: run_schedule_def)

lemma first_idle_finishes:
  "\<exists>sched c'. run_schedule sched (c, replicate d Done @ Idle k # rest)
                 = (c', replicate (Suc d) Done @ rest)"
proof (cases k)
  case Transaction
  have "run_schedule [ReadCurrent d, CompareAndSet d] (c, replicate d Done @ Idle k # rest)
          = (Some (increment_update c), replicate (Suc d) Done @ rest)"
    using Transaction
    by (simp add: run_schedule_def nth_append list_update_append replicate_app_Cons_same)
  then show ?thesis by blast
next
  case AtomicIncrement
  have "run_schedule [ServerIncrement d] (c, replicate d Done @ Idle k # rest)
          = (Some (stored c + 1), replicate (Suc d) Done @ rest)"
    using AtomicIncrement
    by (simp add: run_schedule_def nth_append list_update_append replicate_app_Cons_same)
  then show ?thesis by blast
qed

lemma some_schedule_completes:
  "\<exists>sched c'. run_schedule sched (c, replicate d Done @ map Idle ks)
                 = (c', replicate (d + length ks) Done)"
proof (induction ks arbitrary: c d)
  case Nil
  have "run_schedule [] (c, replicate d Done @ map Idle []) = (c, replicate (d + length ([]::strategy list)) Done)"
    by (simp add: run_schedule_def)
  then show ?case by blast
next
  case (Cons k ks)
  obtain s1 c1 where s1: "run_schedule s1 (c, replicate d Done @ Idle k # map Idle ks)
                            = (c1, replicate (Suc d) Done @ map Idle ks)"
    using first_idle_finishes [of c d k "map Idle ks"] by blast
  obtain s2 c2 where s2: "run_schedule s2 (c1, replicate (Suc d) Done @ map Idle ks)
                            = (c2, replicate (Suc d + length ks) Done)"
    using Cons.IH [of c1 "Suc d"] by blast
  have "run_schedule (s1 @ s2) (c, replicate d Done @ map Idle (k # ks))
          = (c2, replicate (d + length (k # ks)) Done)"
    using s1 s2 by (simp add: run_schedule_append)
  then show ?case by blast
qed

text \<open>
  C9: \<open>N\<close> callers, each idle at first and each with one increment to make by
  transaction or by atomic increment, under any schedule: once all of them have finished,
  the stored counter is its initial value plus \<open>N\<close>.
\<close>

theorem concurrent_increments_sum:
  assumes "\<forall>s \<in> set cs0. s = Idle Transaction \<or> s = Idle AtomicIncrement"
    and "run_schedule sched (c0, cs0) = (c, cs)"
    and "\<forall>s \<in> set cs. s = Done"
  shows "stored c = stored c0 + int (length cs0)"
proof -
  have p: "\<forall>s \<in> set cs0. \<forall>v new. s = Pending v new \<longrightarrow> new = stored v + 1"
    using assms(1) by auto
  note i = run_schedule_invariant [OF p assms(2)]
  have "filter (\<lambda>s. s = Done) cs0 = []"
    using assms(1) by (auto simp: filter_empty_conv)
  then have d0: "count_done cs0 = 0" by (simp add: count_done_def)
  have "filter (\<lambda>s. s = Done) cs = cs"
    using assms(3) by (simp add: filter_id_conv)
  then have d: "count_done cs = length cs0" using i by (simp add: count_done_def)
  show ?thesis using i d0 d by simp
qed

theorem concurrent_increments_sum_witness:
  "run_schedule
     [ReadCurrent 0, ReadCurrent 1, CompareAndSet 0, ServerIncrement 2, CompareAndSet 1,
      ReadCurrent 1, CompareAndSet 1]
     (Some 5, [Idle Transaction, Idle Transaction, Idle AtomicIncrement])
     = (Some 8, [Done, Done, Done])
   \<and> stored (Some 8) = stored (Some 5) + 3"
proof -
  have r: "run_schedule
     [ReadCurrent 0, ReadCurrent 1, CompareAndSet 0, ServerIncrement 2, CompareAndSet 1,
      ReadCurrent 1, CompareAndSet 1]
     (Some 5, [Idle Transaction, Idle Transaction, Idle AtomicIncrement])
     = (Some 8, [Done, Done, Done])"
    by (simp add: run_schedule_def increment_update_def stored_def)
  have a: "\<forall>s \<in> set [Idle Transaction, Idle Transaction, Idle AtomicIncrement].
             s = Idle Transaction \<or> s = Idle AtomicIncrement"
    by simp
  have d: "\<forall>s \<in> set [Done, Done, Done]. s = Done" by simp
  show ?thesis
    using concurrent_increments_sum [OF a r d] r by simp
qed

end
